theory Spec2Isabelle
  imports Complex_Main "HOL-Library.Multiset" "HOL-Library.Product_Lexorder"
begin

section \<open>Text utilities of the executor\<close>

text \<open>
  A string is a list of code points below 256 (Latin-1), the range of the type \<open>char\<close>.
  On this range \<open>is_space\<close> is the whitespace class of Python's \<open>\s\<close> and of
  \<open>str.strip\<close> (it holds U+0085 and U+00A0), and \<open>lower_char\<close> is \<open>str.lower\<close>: the
  letters A to Z and the capital letters U+00C0 to U+00DE (U+00D7 apart) move up by 32.
\<close>

definition is_space :: "char \<Rightarrow> bool" where
  "is_space c = (c \<in> set [CHR 0x09, CHR 0x0A, CHR 0x0B, CHR 0x0C, CHR 0x0D,
                           CHR 0x1C, CHR 0x1D, CHR 0x1E, CHR 0x1F, CHR 0x20,
                           CHR 0x85, CHR 0xA0])"

definition upper_chars :: string where
  "upper_chars = ''ABCDEFGHIJKLMNOPQRSTUVWXYZ'' @
     [CHR 0xC0, CHR 0xC1, CHR 0xC2, CHR 0xC3, CHR 0xC4, CHR 0xC5, CHR 0xC6, CHR 0xC7,
      CHR 0xC8, CHR 0xC9, CHR 0xCA, CHR 0xCB, CHR 0xCC, CHR 0xCD, CHR 0xCE, CHR 0xCF,
      CHR 0xD0, CHR 0xD1, CHR 0xD2, CHR 0xD3, CHR 0xD4, CHR 0xD5, CHR 0xD6,
      CHR 0xD8, CHR 0xD9, CHR 0xDA, CHR 0xDB, CHR 0xDC, CHR 0xDD, CHR 0xDE]"

definition lower_chars :: string where
  "lower_chars = ''abcdefghijklmnopqrstuvwxyz'' @
     [CHR 0xE0, CHR 0xE1, CHR 0xE2, CHR 0xE3, CHR 0xE4, CHR 0xE5, CHR 0xE6, CHR 0xE7,
      CHR 0xE8, CHR 0xE9, CHR 0xEA, CHR 0xEB, CHR 0xEC, CHR 0xED, CHR 0xEE, CHR 0xEF,
      CHR 0xF0, CHR 0xF1, CHR 0xF2, CHR 0xF3, CHR 0xF4, CHR 0xF5, CHR 0xF6,
      CHR 0xF8, CHR 0xF9, CHR 0xFA, CHR 0xFB, CHR 0xFC, CHR 0xFD, CHR 0xFE]"

definition lower_char :: "char \<Rightarrow> char" where
  "lower_char c =
     (case map_of (zip upper_chars lower_chars) c of
        None \<Rightarrow> c
      | Some d \<Rightarrow> d)"

definition lower :: "string \<Rightarrow> string" where
  "lower s = map lower_char s"

definition strip :: "string \<Rightarrow> string" where
  "strip s = rev (dropWhile is_space (rev (dropWhile is_space s)))"

text \<open>\<open>re.sub(r"\s+", " ", s)\<close>: every maximal run of whitespace becomes one blank.\<close>

fun collapse_ws :: "string \<Rightarrow> string" where
  "collapse_ws [] = []"
| "collapse_ws [c] = (if is_space c then [CHR 0x20] else [c])"
| "collapse_ws (c # d # cs) =
     (if is_space c then (if is_space d then collapse_ws (d # cs)
                          else CHR 0x20 # collapse_ws (d # cs))
      else c # collapse_ws (d # cs))"

text \<open>\<open>_norm(s)\<close> on a string; \<open>norm_opt\<close> is \<open>_norm\<close> on an optional string (\<open>s or ""\<close>).\<close>

definition norm_text :: "string \<Rightarrow> string" where
  "norm_text s = lower (strip (collapse_ws s))"

definition or_empty :: "string option \<Rightarrow> string" where
  "or_empty s = (case s of None \<Rightarrow> [] | Some t \<Rightarrow> t)"

definition norm_opt :: "string option \<Rightarrow> string" where
  "norm_opt s = norm_text (or_empty s)"

text \<open>Truthiness of an optional string: neither \<open>None\<close> nor empty.\<close>

definition truthy :: "string option \<Rightarrow> bool" where
  "truthy s = (or_empty s \<noteq> [])"

text \<open>\<open>t.startswith(q)\<close> and \<open>q in t\<close>.\<close>

fun starts_with :: "string \<Rightarrow> string \<Rightarrow> bool" where
  "starts_with t [] = True"
| "starts_with [] (q # qs) = False"
| "starts_with (c # cs) (q # qs) = (c = q \<and> starts_with cs qs)"

fun is_substr :: "string \<Rightarrow> string \<Rightarrow> bool" where
  "is_substr q [] = (q = [])"
| "is_substr q (c # cs) = (starts_with (c # cs) q \<or> is_substr q cs)"

section \<open>Double arithmetic\<close>

text \<open>
  Python's \<open>float\<close> is the IEEE 754 double. A double is a real number here, and every
  arithmetic operation of the source is the exact operation followed by \<open>dbl\<close>, the
  rounding to the nearest double with ties to the even significand: 53 significant bits,
  and the fixed spacing \<open>2^-1074\<close> of the subnormal numbers below \<open>2^-1022\<close>. There is no
  largest double in the model: a result beyond the double range, which the code turns
  into an infinity, and NaN are outside it. A literal such as \<open>0.3\<close> is \<open>dbl (3 / 10)\<close>;
  the literals \<open>0.0\<close>, \<open>0.25\<close>, \<open>0.5\<close>, \<open>1.0\<close>, \<open>2.0\<close>, \<open>100.0\<close>, \<open>1000.0\<close> are
  doubles as they stand. Negation, comparison, \<open>min\<close> and \<open>max\<close> are exact.
\<close>

definition round_even :: "real \<Rightarrow> int" where
  "round_even y =
     (let f = \<lfloor>y\<rfloor>; r = y - of_int f in
      if r < 1 / 2 then f
      else if 1 / 2 < r then f + 1
      else if even f then f else f + 1)"

definition ulp_exp :: "real \<Rightarrow> int" where
  "ulp_exp x = max \<lfloor>log 2 \<bar>x\<bar>\<rfloor> (- 1022) - 52"

definition dbl :: "real \<Rightarrow> real" where
  "dbl x = (if x = 0 then 0
            else of_int (round_even (x / 2 powr of_int (ulp_exp x)))
                 * 2 powr of_int (ulp_exp x))"

definition fadd :: "real \<Rightarrow> real \<Rightarrow> real" where
  "fadd a b = dbl (a + b)"

definition fsub :: "real \<Rightarrow> real \<Rightarrow> real" where
  "fsub a b = dbl (a - b)"

definition fmul :: "real \<Rightarrow> real \<Rightarrow> real" where
  "fmul a b = dbl (a * b)"

definition fdiv :: "real \<Rightarrow> real \<Rightarrow> real" where
  "fdiv a b = dbl (a / b)"

section \<open>Candidate resolver\<close>

text \<open>
  The numbers of a bounding box are doubles: JSON numbers, integers included as long as
  they are below \<open>2^53\<close>.
\<close>

record bbox =
  box_x :: real
  box_y :: real
  box_w :: real
  box_h :: real

text \<open>
  One record of \<open>elements_min\<close>. A missing or null \<open>name\<close> reads as the empty string
  (\<open>el.get("name") or ""\<close>); \<open>el_selector\<close> is the optional raw \<open>selector\<close> key that
  \<open>_resolve_target_selector\<close> consults last.
\<close>

record element =
  el_uid :: string
  el_role :: "string option"
  el_tag :: "string option"
  el_name :: string
  el_selector_pref :: "string option"
  el_bbox :: "bbox option"
  el_frame_path :: "string list"
  el_shadow_path :: "string list option"
  el_selector :: "string option"

text \<open>
  A match object: each field is \<open>None\<close> when its key is absent. A null or empty match
  object is the record with every field \<open>None\<close>.
\<close>

record match_spec =
  m_text :: "string option"
  m_role :: "string option"
  m_exact :: "bool option"
  m_not_contains :: "string list option"

definition PREFER_ROLES :: "string list" where
  "PREFER_ROLES = [''textbox'', ''button'', ''link'']"

definition NEG_DEFAULT :: "string list" where
  "NEG_DEFAULT = [''with google'', ''with apple'', ''with facebook'', ''with'']"

definition score_text :: "string \<Rightarrow> string \<Rightarrow> real" where
  "score_text q t =
     (let qn = norm_text q; tn = norm_text t in
      if qn = [] \<or> tn = [] then 0
      else if qn = tn then 1
      else if starts_with tn qn then dbl (85 / 100)
      else if is_substr qn tn then dbl (6 / 10)
      else 0)"

fun is_blocked :: "string \<Rightarrow> string list \<Rightarrow> bool" where
  "is_blocked text [] = False"
| "is_blocked text (bad # rest) =
     (if norm_text bad \<noteq> [] \<and> is_substr (norm_text bad) (norm_text text) then True
      else is_blocked text rest)"

fun index_of :: "'a \<Rightarrow> 'a list \<Rightarrow> nat option" where
  "index_of x [] = None"
| "index_of x (y # ys) = (if x = y then Some 0 else map_option Suc (index_of x ys))"

definition s_role :: "string \<Rightarrow> real" where
  "s_role role = (case index_of role PREFER_ROLES of
                    None \<Rightarrow> 0
                  | Some i \<Rightarrow> fsub (dbl (3 / 10)) (fmul (dbl (1 / 10)) (real i)))"

text \<open>
  \<open>math.hypot\<close> is a function of the standard library: it is the parameter \<open>hyp\<close> of the
  resolver and of everything that calls it. \<open>center_dist\<close> is the distance between the
  centres of two boxes as the resolver computes it.
\<close>

definition center_dist :: "(real \<Rightarrow> real \<Rightarrow> real) \<Rightarrow> bbox \<Rightarrow> bbox \<Rightarrow> real" where
  "center_dist hyp b b2 =
     (let cx = fadd (box_x b) (fdiv (box_w b) 2); cy = fadd (box_y b) (fdiv (box_h b) 2);
          cx2 = fadd (box_x b2) (fdiv (box_w b2) 2); cy2 = fadd (box_y b2) (fdiv (box_h b2) 2)
      in hyp (fsub cx cx2) (fsub cy cy2))"

definition s_near :: "(real \<Rightarrow> real \<Rightarrow> real) \<Rightarrow> element option \<Rightarrow> element \<Rightarrow> real" where
  "s_near hyp last_target el =
     (case last_target of
        None \<Rightarrow> 0
      | Some lt \<Rightarrow>
          (case el_bbox el of
             None \<Rightarrow> 0
           | Some b \<Rightarrow>
               (case el_bbox lt of
                  None \<Rightarrow> 0
                | Some b2 \<Rightarrow>
                    (let d = center_dist hyp b b2
                     in max 0 (fsub (1 / 4) (min (fdiv d 1000) (1 / 4)))))))"

text \<open>
  The text score of one element name: \<open>_score_text\<close> when a text is wanted, the flat 0.3
  otherwise, forced to 0 when \<open>exact\<close> is set and the normalised names differ.
\<close>

definition s_txt :: "match_spec \<Rightarrow> string \<Rightarrow> real" where
  "s_txt m name =
     (let want_text = or_empty (m_text m);
          exact = (m_exact m = Some True);
          s0 = (if want_text \<noteq> [] then score_text want_text name else dbl (3 / 10))
      in if exact \<and> norm_text want_text \<noteq> norm_text name then 0 else s0)"

definition not_contains_of :: "match_spec \<Rightarrow> string list" where
  "not_contains_of m = (case m_not_contains m of None \<Rightarrow> [] | Some l \<Rightarrow> l) @ NEG_DEFAULT"

text \<open>
  The body of the loop of \<open>_rank_candidates\<close> for one element: \<open>None\<close> when the element is
  skipped (\<open>continue\<close>), otherwise its total score.
\<close>

definition cand_score ::
  "(real \<Rightarrow> real \<Rightarrow> real) \<Rightarrow> match_spec \<Rightarrow> element option \<Rightarrow> element \<Rightarrow> real option" where
  "cand_score hyp m last_target el =
     (let want_role = m_role m;
          name = el_name el;
          role = norm_opt (el_role el)
      in if truthy want_role \<and> norm_opt want_role \<noteq> role then None
         else if name = [] then None
         else if is_blocked name (not_contains_of m) then None
         else if s_txt m name \<le> 0 then None
         else Some (fadd (fadd (s_txt m name) (s_role role)) (s_near hyp last_target el)))"

fun cands_of ::
  "(real \<Rightarrow> real \<Rightarrow> real) \<Rightarrow> match_spec \<Rightarrow> element option \<Rightarrow> element list
     \<Rightarrow> (real \<times> element) list" where
  "cands_of hyp m last_target [] = []"
| "cands_of hyp m last_target (el # els) =
     (case cand_score hyp m last_target el of
        None \<Rightarrow> cands_of hyp m last_target els
      | Some score \<Rightarrow> (- score, el) # cands_of hyp m last_target els)"

text \<open>\<open>cands.sort(key=lambda x: x[0])\<close> is a stable sort by the first component.\<close>

definition rank_candidates ::
  "(real \<Rightarrow> real \<Rightarrow> real) \<Rightarrow> element list \<Rightarrow> match_spec \<Rightarrow> element option \<Rightarrow> element list" where
  "rank_candidates hyp elements_min m last_target =
     map snd (sort_key fst (cands_of hyp m last_target elements_min))"

text \<open>An element is eligible when the loop keeps it; its total score is the one it is kept with.\<close>

definition eligible ::
  "(real \<Rightarrow> real \<Rightarrow> real) \<Rightarrow> match_spec \<Rightarrow> element option \<Rightarrow> element \<Rightarrow> bool" where
  "eligible hyp m last_target el = (cand_score hyp m last_target el \<noteq> None)"

definition total_score ::
  "(real \<Rightarrow> real \<Rightarrow> real) \<Rightarrow> match_spec \<Rightarrow> element option \<Rightarrow> element \<Rightarrow> real" where
  "total_score hyp m last_target el =
     (case cand_score hyp m last_target el of None \<Rightarrow> 0 | Some s \<Rightarrow> s)"

section \<open>Step executor\<close>

text \<open>
  A step target: each field is \<open>None\<close> when its key is absent from the target object.
  A step without a target has the target with every field \<open>None\<close>
  (\<open>step.get("target") or {}\<close>). Values are read as strings, lists and booleans.
\<close>

record target =
  t_selector :: "string option"
  t_uid :: "string option"
  t_match :: "match_spec option"
  t_role :: "string option"
  t_name :: "string option"
  t_text :: "string option"
  t_exact :: "bool option"
  t_not_contains :: "string list option"

record step =
  st_action :: string
  st_text :: "string option"
  st_value :: "string option"
  st_target :: target
  st_role :: "string option"
  st_name :: "string option"

record plan =
  p_steps :: "step list option"

record min_json =
  elements_min :: "element list"

datatype exec_error =
    UidNotFound string
  | NoCandidates
  | RoleNameNotFound
  | MissingTarget
  | SelectorResolveFailed

definition no_target :: target where
  "no_target = \<lparr>t_selector = None, t_uid = None, t_match = None, t_role = None,
                 t_name = None, t_text = None, t_exact = None, t_not_contains = None\<rparr>"

definition aria_of :: "string \<Rightarrow> string \<Rightarrow> string" where
  "aria_of role name = ''aria://'' @ role @ ''::'' @ name"

definition resolve_target_selector :: "element \<Rightarrow> string option" where
  "resolve_target_selector el =
     (if truthy (el_selector_pref el) then el_selector_pref el
      else if truthy (el_role el) \<and> el_name el \<noteq> []
           then Some (aria_of (lower (strip (or_empty (el_role el)))) (strip (el_name el)))
      else if truthy (el_selector el) then el_selector el
      else None)"

definition find_element_by_uid :: "element list \<Rightarrow> string \<Rightarrow> element option" where
  "find_element_by_uid els uid = find (\<lambda>el. el_uid el = uid) els"

definition find_by_match :: "element list \<Rightarrow> string option \<Rightarrow> string option \<Rightarrow> element option" where
  "find_by_match els role name =
     (let role_n = norm_opt role; name_n = norm_opt name in
      case find (\<lambda>el. \<not> (role_n \<noteq> [] \<and> norm_opt (el_role el) \<noteq> role_n)
                    \<and> \<not> (name_n \<noteq> [] \<and> norm_text (el_name el) \<noteq> name_n)) els of
        Some el \<Rightarrow> Some el
      | None \<Rightarrow>
          find (\<lambda>el. \<not> (role_n \<noteq> [] \<and> norm_opt (el_role el) \<noteq> role_n)
                    \<and> \<not> (name_n \<noteq> [] \<and> \<not> is_substr name_n (norm_text (el_name el)))) els)"

text \<open>Truthiness of a match object: it has at least one key.\<close>

definition match_truthy :: "match_spec \<Rightarrow> bool" where
  "match_truthy m = (m_text m \<noteq> None \<or> m_role m \<noteq> None \<or> m_exact m \<noteq> None
                      \<or> m_not_contains m \<noteq> None)"

definition list_or_nil :: "'a list option \<Rightarrow> 'a list" where
  "list_or_nil l = (case l of None \<Rightarrow> [] | Some xs \<Rightarrow> xs)"

text \<open>The match object built from a legacy \<open>(role, name)\<close> target that carries a mask.\<close>

definition upgraded_match :: "target \<Rightarrow> match_spec" where
  "upgraded_match t =
     \<lparr>m_text = Some (if truthy (t_name t) then or_empty (t_name t) else or_empty (t_text t)),
      m_role = t_role t,
      m_exact = Some (t_exact t = Some True),
      m_not_contains = Some (list_or_nil (t_not_contains t))\<rparr>"

definition first_ranked :: "element list \<Rightarrow> exec_error + (string option \<times> element option)" where
  "first_ranked ranked =
     (case ranked of
        [] \<Rightarrow> Inl NoCandidates
      | el # _ \<Rightarrow> Inr (resolve_target_selector el, Some el))"

text \<open>
  Target resolution of one step: the chain of \<open>if "selector" in target ... elif ... else\<close>,
  followed by \<open>if not selector: raise\<close>. The result is the selector and the chosen element.
\<close>

definition resolve_chain ::
  "(real \<Rightarrow> real \<Rightarrow> real) \<Rightarrow> element list \<Rightarrow> element option \<Rightarrow> step \<Rightarrow> exec_error + (string option \<times> element option)" where
  "resolve_chain hyp els last_chosen st =
     (let t = st_target st in
      case t_selector t of
        Some sel \<Rightarrow> Inr (Some sel, None)
      | None \<Rightarrow>
        (case t_uid t of
           Some uid \<Rightarrow>
             (case find_element_by_uid els uid of
                None \<Rightarrow> Inl (UidNotFound uid)
              | Some el \<Rightarrow> Inr (resolve_target_selector el, Some el))
         | None \<Rightarrow>
           (case t_match t of
              Some m \<Rightarrow> first_ranked (rank_candidates hyp els m last_chosen)
            | None \<Rightarrow>
                if (t_role t \<noteq> None \<or> t_name t \<noteq> None)
                   \<and> (t_not_contains t \<noteq> None \<or> t_exact t \<noteq> None)
                then first_ranked (rank_candidates hyp els (upgraded_match t) last_chosen)
                else if t_role t \<noteq> None \<or> t_name t \<noteq> None
                then (case find_by_match els (t_role t) (t_name t) of
                        None \<Rightarrow> Inl RoleNameNotFound
                      | Some el \<Rightarrow> Inr (resolve_target_selector el, Some el))
                else if truthy (st_name st) \<and> truthy (st_role st)
                then Inr (Some (aria_of (norm_opt (st_role st)) (or_empty (st_name st))), None)
                else Inl MissingTarget)))"

definition resolve_target ::
  "(real \<Rightarrow> real \<Rightarrow> real) \<Rightarrow> element list \<Rightarrow> element option \<Rightarrow> step \<Rightarrow> exec_error + (string \<times> element option)" where
  "resolve_target hyp els last_chosen st =
     (case resolve_chain hyp els last_chosen st of
        Inl e \<Rightarrow> Inl e
      | Inr (sel, chosen) \<Rightarrow>
          (case sel of
             None \<Rightarrow> Inl SelectorResolveFailed
           | Some s \<Rightarrow> if s = [] then Inl SelectorResolveFailed else Inr (s, chosen)))"

text \<open>
  The safety check of a click step: when the chosen element's name is blocked by the
  target's own \<open>not_contains\<close>, the candidates are ranked again and the entry at index 1
  replaces the choice when the ranking has at least two entries.
\<close>

definition recheck_match :: "target \<Rightarrow> match_spec option" where
  "recheck_match t =
     (case t_match t of
        Some m \<Rightarrow> if match_truthy m then Some m else None
      | None \<Rightarrow> if t_role t \<noteq> None \<or> t_name t \<noteq> None then Some (upgraded_match t) else None)"

definition click_recheck ::
  "(real \<Rightarrow> real \<Rightarrow> real) \<Rightarrow> element list \<Rightarrow> element option \<Rightarrow> target \<Rightarrow> element option \<Rightarrow> string option
     \<Rightarrow> element option \<times> string option" where
  "click_recheck hyp els last_chosen t chosen selector =
     (case chosen of
        None \<Rightarrow> (chosen, selector)
      | Some el \<Rightarrow>
          if is_blocked (el_name el) (list_or_nil (t_not_contains t))
          then (case recheck_match t of
                  None \<Rightarrow> (chosen, selector)
                | Some m2 \<Rightarrow>
                    (case rank_candidates hyp els m2 last_chosen of
                       a # b # rest \<Rightarrow> (Some b, resolve_target_selector b)
                     | _ \<Rightarrow> (chosen, selector)))
          else (chosen, selector))"


subsection \<open>The page and its primitives\<close>

text \<open>
  The browser page is a state of type \<open>'p\<close>. Each primitive returns whether it succeeded
  (\<open>False\<close>: it raised, or the wait timed out) and the page after it. The observer is the
  optional \<open>on_after_action\<close> callback, whose exceptions the executor swallows.
\<close>

datatype after_arg = ArgTarget target | ArgValue string

record 'p page_ops =
  op_visible :: "'p \<Rightarrow> string \<Rightarrow> nat \<Rightarrow> bool \<times> 'p"
  op_click :: "'p \<Rightarrow> string \<Rightarrow> bool \<times> 'p"
  op_type :: "'p \<Rightarrow> string \<Rightarrow> string \<Rightarrow> bool \<times> 'p"
  op_wait_url :: "'p \<Rightarrow> string \<Rightarrow> bool \<times> 'p"
  op_after :: "(string \<Rightarrow> after_arg \<Rightarrow> 'p \<Rightarrow> 'p) option"

datatype event =
    EvVisible string nat
  | EvClick string
  | EvType string string
  | EvWaitUrl string
  | EvAfter string

record 'p exec_state =
  es_page :: 'p
  es_log :: "event list"

definition do_visible ::
  "'p page_ops \<Rightarrow> string option \<Rightarrow> nat \<Rightarrow> 'p exec_state \<Rightarrow> bool \<times> 'p exec_state" where
  "do_visible ops selector timeout_ms s =
     (case selector of
        None \<Rightarrow> (False, s)
      | Some sel \<Rightarrow>
          (let (v, p') = op_visible ops (es_page s) sel timeout_ms
           in (v, \<lparr>es_page = p', es_log = es_log s @ [EvVisible sel timeout_ms]\<rparr>)))"

definition do_click :: "'p page_ops \<Rightarrow> string \<Rightarrow> 'p exec_state \<Rightarrow> bool \<times> 'p exec_state" where
  "do_click ops sel s =
     (let (ok, p') = op_click ops (es_page s) sel
      in (ok, \<lparr>es_page = p', es_log = es_log s @ [EvClick sel]\<rparr>))"

definition do_type ::
  "'p page_ops \<Rightarrow> string \<Rightarrow> string \<Rightarrow> 'p exec_state \<Rightarrow> bool \<times> 'p exec_state" where
  "do_type ops sel text s =
     (let (ok, p') = op_type ops (es_page s) sel text
      in (ok, \<lparr>es_page = p', es_log = es_log s @ [EvType sel text]\<rparr>))"

definition do_wait_url :: "'p page_ops \<Rightarrow> string \<Rightarrow> 'p exec_state \<Rightarrow> bool \<times> 'p exec_state" where
  "do_wait_url ops want s =
     (let (ok, p') = op_wait_url ops (es_page s) want
      in (ok, \<lparr>es_page = p', es_log = es_log s @ [EvWaitUrl want]\<rparr>))"

definition do_after :: "'p page_ops \<Rightarrow> string \<Rightarrow> after_arg \<Rightarrow> 'p exec_state \<Rightarrow> 'p exec_state" where
  "do_after ops a tgt s =
     (case op_after ops of
        None \<Rightarrow> s
      | Some f \<Rightarrow> \<lparr>es_page = f a tgt (es_page s), es_log = es_log s @ [EvAfter a]\<rparr>)"

subsection \<open>Home fallback\<close>

definition NAV_OPENER_NAMES :: "string list" where
  "NAV_OPENER_NAMES = [''Menu'', ''Main menu'', ''Navigation'', ''Open navigation'', ''More'',
     ''More options'', ''Toggle navigation'', ''Show menu'', ''Close'', ''Open'']"

definition LOGO_NAMES :: "string list" where
  "LOGO_NAMES = [''Adobe Express'', ''Express'', ''Adobe logo'', ''Home'', ''Go to Home'']"

text \<open>
  The three loops of \<open>_try_open_nav_and_retry_home\<close>. An exception inside one iteration is
  swallowed and the loop goes on with the next element.
\<close>

fun try_nav_openers ::
  "'p page_ops \<Rightarrow> string option \<Rightarrow> element list \<Rightarrow> 'p exec_state \<Rightarrow> bool \<times> 'p exec_state" where
  "try_nav_openers ops home_selector [] s = (False, s)"
| "try_nav_openers ops home_selector (el # els) s =
     (if norm_opt (el_role el) \<noteq> ''button'' then try_nav_openers ops home_selector els s
      else if norm_text (el_name el) \<in> set (map norm_text NAV_OPENER_NAMES)
      then (case resolve_target_selector el of
              None \<Rightarrow> try_nav_openers ops home_selector els s
            | Some osel \<Rightarrow>
                if osel = [] then try_nav_openers ops home_selector els s
                else (let (v, s1) = do_visible ops (Some osel) 1500 s in
                      if \<not> v then try_nav_openers ops home_selector els s1
                      else (let (ok, s2) = do_click ops osel s1 in
                            if \<not> ok then try_nav_openers ops home_selector els s2
                            else (let (v2, s3) = do_visible ops home_selector 2000 s2 in
                                  if \<not> v2 then try_nav_openers ops home_selector els s3
                                  else (let (ok2, s4) = do_click ops (or_empty home_selector) s3 in
                                        if ok2 then (True, s4)
                                        else try_nav_openers ops home_selector els s4)))))
      else try_nav_openers ops home_selector els s)"

text \<open>
  The second and third loop differ only in which elements they try: \<open>pick\<close> is the test
  on role and name.
\<close>

fun try_click_first ::
  "'p page_ops \<Rightarrow> (element \<Rightarrow> bool) \<Rightarrow> element list \<Rightarrow> 'p exec_state \<Rightarrow> bool \<times> 'p exec_state" where
  "try_click_first ops pick [] s = (False, s)"
| "try_click_first ops pick (el # els) s =
     (if \<not> pick el then try_click_first ops pick els s
      else (case resolve_target_selector el of
              None \<Rightarrow> try_click_first ops pick els s
            | Some sel \<Rightarrow>
                if sel = [] then try_click_first ops pick els s
                else (let (v, s1) = do_visible ops (Some sel) 2000 s in
                      if \<not> v then try_click_first ops pick els s1
                      else (let (ok, s2) = do_click ops sel s1 in
                            if ok then (True, s2)
                            else try_click_first ops pick els s2))))"

definition is_logo :: "element \<Rightarrow> bool" where
  "is_logo el = (norm_opt (el_role el) \<in> set [''link'', ''img'', ''button'']
                 \<and> norm_text (el_name el) \<in> set (map norm_text LOGO_NAMES))"

definition is_home_link :: "element \<Rightarrow> bool" where
  "is_home_link el = (norm_opt (el_role el) = ''link'' \<and> is_substr ''home'' (norm_text (el_name el)))"

definition try_open_nav_and_retry_home ::
  "'p page_ops \<Rightarrow> element list \<Rightarrow> string option \<Rightarrow> 'p exec_state \<Rightarrow> bool \<times> 'p exec_state" where
  "try_open_nav_and_retry_home ops els home_selector s =
     (let (ok1, s1) = try_nav_openers ops home_selector els s in
      if ok1 then (True, s1)
      else (let (ok2, s2) = try_click_first ops is_logo els s1 in
            if ok2 then (True, s2)
            else try_click_first ops is_home_link els s2))"


subsection \<open>Running a plan\<close>

text \<open>\<open>text.replace(old, new)\<close> for a non-empty \<open>old\<close> (here always \<open><NAME>\<close>).\<close>

function replace_all :: "string \<Rightarrow> string \<Rightarrow> string \<Rightarrow> string" where
  "replace_all old new [] = []"
| "replace_all old new (c # cs) =
     (if old \<noteq> [] \<and> starts_with (c # cs) old
      then new @ replace_all old new (drop (length old) (c # cs))
      else c # replace_all old new cs)"
  by pat_completeness auto
termination
  by (relation "measure (\<lambda>(old, new, t). length t)") auto

definition substitute :: "(string \<times> string) list \<Rightarrow> string \<Rightarrow> string" where
  "substitute user_vars text =
     fold (\<lambda>(k, v) t. replace_all (''<'' @ k @ ''>'') v t) user_vars text"

definition step_text :: "step \<Rightarrow> string" where
  "step_text st = (case st_text st of Some t \<Rightarrow> t | None \<Rightarrow> or_empty (st_value st))"

datatype fail_reason =
    ResolveFailed exec_error
  | NotVisibleForType string
  | NotVisibleForClick "string option"
  | WaitUrlRequiresText
  | PrimitiveRaised

text \<open>
  What one iteration of the loop over the steps does: go on with the next step
  (\<open>Next\<close>, with the new last chosen element), return \<open>True\<close> at once (\<open>Finish\<close>), or
  return \<open>False\<close> at once (\<open>Abort\<close>, any exception).
\<close>

datatype 'p step_outcome =
    Next "element option" "'p exec_state"
  | Finish "'p exec_state"
  | Abort fail_reason "'p exec_state"

definition chosen_or :: "element option \<Rightarrow> element option \<Rightarrow> element option" where
  "chosen_or chosen last_chosen = (case chosen of Some c \<Rightarrow> Some c | None \<Rightarrow> last_chosen)"

definition exec_type ::
  "'p page_ops \<Rightarrow> target \<Rightarrow> string \<Rightarrow> string \<Rightarrow> element option \<Rightarrow> element option
     \<Rightarrow> 'p exec_state \<Rightarrow> 'p step_outcome" where
  "exec_type ops t text selector chosen last_chosen s =
     (let (v, s1) = do_visible ops (Some selector) 2000 s in
      if \<not> v then Abort (NotVisibleForType selector) s1
      else (let (ok, s2) = do_type ops selector text s1 in
            if \<not> ok then Abort PrimitiveRaised s2
            else Next (chosen_or chosen last_chosen) (do_after ops ''type'' (ArgTarget t) s2)))"

definition click_target_name :: "element option \<Rightarrow> target \<Rightarrow> string" where
  "click_target_name chosen t =
     (let from_target =
            (let mt = (case t_match t of Some m \<Rightarrow> or_empty (m_text m) | None \<Rightarrow> [])
             in if mt \<noteq> [] then mt else or_empty (t_name t))
      in case chosen of
           Some el \<Rightarrow> if el_name el \<noteq> [] then el_name el else from_target
         | None \<Rightarrow> from_target)"

definition exec_click ::
  "(real \<Rightarrow> real \<Rightarrow> real) \<Rightarrow> 'p page_ops \<Rightarrow> element list \<Rightarrow> target \<Rightarrow> string \<Rightarrow> element option \<Rightarrow> element option
     \<Rightarrow> 'p exec_state \<Rightarrow> 'p step_outcome" where
  "exec_click hyp ops els t selector chosen last_chosen s =
     (let (chosen', selector') = click_recheck hyp els last_chosen t chosen (Some selector);
          (v, s1) = do_visible ops selector' 2000 s
      in if \<not> v
         then (if is_substr ''home'' (norm_text (click_target_name chosen' t))
               then (let (ok, s2) = try_open_nav_and_retry_home ops els selector' s1 in
                     if ok then Next None (do_after ops ''click'' (ArgTarget t) s2)
                     else Abort (NotVisibleForClick selector') s2)
               else Abort (NotVisibleForClick selector') s1)
         else (let (ok, s2) = do_click ops (or_empty selector') s1 in
               if \<not> ok then Abort PrimitiveRaised s2
               else Next (chosen_or chosen' last_chosen)
                         (do_after ops ''click'' (ArgTarget t) s2)))"

definition exec_wait_url ::
  "'p page_ops \<Rightarrow> string \<Rightarrow> element option \<Rightarrow> 'p exec_state \<Rightarrow> 'p step_outcome" where
  "exec_wait_url ops want last_chosen s =
     (if want = [] then Abort WaitUrlRequiresText s
      else (let (ok, s1) = do_wait_url ops want s in
            if \<not> ok then Abort PrimitiveRaised s1
            else Next last_chosen (do_after ops ''wait_url_contains'' (ArgValue want) s1)))"

text \<open>
  The body of the loop of \<open>run_plan_stepwise\<close>. The target is resolved before the action
  is dispatched, so a failure of the resolution aborts the step whatever its action is.
\<close>

definition exec_step ::
  "(real \<Rightarrow> real \<Rightarrow> real) \<Rightarrow> 'p page_ops \<Rightarrow> element list \<Rightarrow> (string \<times> string) list \<Rightarrow> element option \<Rightarrow> step
     \<Rightarrow> 'p exec_state \<Rightarrow> 'p step_outcome" where
  "exec_step hyp ops els user_vars last_chosen st s =
     (let action = lower (strip (st_action st)) in
      if action = [] then Next last_chosen s
      else if action = ''end'' then Finish s
      else (let text = substitute user_vars (step_text st) in
            case resolve_target hyp els last_chosen st of
              Inl e \<Rightarrow> Abort (ResolveFailed e) s
            | Inr (selector, chosen) \<Rightarrow>
                if action = ''type''
                then exec_type ops (st_target st) text selector chosen last_chosen s
                else if action = ''click''
                then exec_click hyp ops els (st_target st) selector chosen last_chosen s
                else if action = ''wait_url_contains''
                then exec_wait_url ops text last_chosen s
                else Next last_chosen s))"

fun run_steps ::
  "(real \<Rightarrow> real \<Rightarrow> real) \<Rightarrow> 'p page_ops \<Rightarrow> element list \<Rightarrow> (string \<times> string) list \<Rightarrow> step list \<Rightarrow> element option
     \<Rightarrow> 'p exec_state \<Rightarrow> bool \<times> 'p exec_state" where
  "run_steps hyp ops els user_vars [] last_chosen s = (True, s)"
| "run_steps hyp ops els user_vars (st # rest) last_chosen s =
     (case exec_step hyp ops els user_vars last_chosen st s of
        Next last' s' \<Rightarrow> run_steps hyp ops els user_vars rest last' s'
      | Finish s' \<Rightarrow> (True, s')
      | Abort reason s' \<Rightarrow> (False, s'))"

definition run_plan_stepwise ::
  "(real \<Rightarrow> real \<Rightarrow> real) \<Rightarrow> 'p page_ops \<Rightarrow> 'p \<Rightarrow> min_json \<Rightarrow> plan \<Rightarrow> (string \<times> string) list \<Rightarrow> bool \<times> 'p exec_state" where
  "run_plan_stepwise hyp ops page element_index_min pl user_vars =
     run_steps hyp ops (elements_min element_index_min) user_vars (list_or_nil (p_steps pl)) None
       \<lparr>es_page = page, es_log = []\<rparr>"


section \<open>Planner: from the model's answer to a plan\<close>

text \<open>
  \<open>json.loads\<close> is a parameter: it returns \<open>None\<close> when it raises. A parsed value is an
  object with its \<open>steps\<close> key (\<open>None\<close> when the key is absent or not a list), a falsy
  value, or any other value, on which \<open>.get\<close> raises.
\<close>

datatype parsed = PObject "step list option" | PFalsy | POther

datatype plan_error = AttributeError

definition normalize_step :: "step \<Rightarrow> step" where
  "normalize_step st =
     (if lower (st_action st) = ''type'' \<and> st_text st = None \<and> st_value st \<noteq> None
      then st\<lparr>st_text := st_value st, st_value := None\<rparr>
      else st)"

definition normalize_plan :: "parsed \<Rightarrow> plan_error + plan" where
  "normalize_plan raw =
     (case raw of
        POther \<Rightarrow> Inl AttributeError
      | PFalsy \<Rightarrow> Inr \<lparr>p_steps = Some []\<rparr>
      | PObject None \<Rightarrow> Inr \<lparr>p_steps = Some []\<rparr>
      | PObject (Some sts) \<Rightarrow> Inr \<lparr>p_steps = Some (map normalize_step sts)\<rparr>)"

text \<open>The end of \<open>plan_actions\<close>, from the content of the model's answer on.\<close>

definition plan_of_content :: "(string \<Rightarrow> parsed option) \<Rightarrow> string \<Rightarrow> plan_error + plan" where
  "plan_of_content loads content =
     (case loads content of
        None \<Rightarrow> Inr \<lparr>p_steps = Some []\<rparr>
      | Some raw_plan \<Rightarrow> normalize_plan raw_plan)"

section \<open>Recovery loop\<close>

text \<open>
  One round of the loop of \<open>main\<close>. The world is a state of type \<open>'w\<close>; taking a snapshot,
  asking the planner and reading the user's input may raise (\<open>None\<close>), which leaves
  \<open>main\<close>; the step executor always returns. The log records the calls the round itself
  makes, in order; the snapshots that the observer takes after each action happen inside
  the run of the step executor and are part of it.
\<close>

datatype snap_label = Pre nat | Recover nat

datatype loop_event = LSnapshot snap_label | LInput | LPlan string | LRun

record 'w loop_env =
  env_snapshot :: "snap_label \<Rightarrow> 'w \<Rightarrow> (min_json \<times> 'w) option"
  env_input :: "'w \<Rightarrow> (string \<times> 'w) option"
  env_plan :: "string \<Rightarrow> min_json \<Rightarrow> string \<Rightarrow> 'w \<Rightarrow> (plan \<times> 'w) option"
  env_run :: "nat \<Rightarrow> min_json \<Rightarrow> plan \<Rightarrow> (string \<times> string) list \<Rightarrow> 'w \<Rightarrow> bool \<times> 'w"

record 'w loop_state =
  ls_world :: 'w
  ls_log :: "loop_event list"

definition logged :: "loop_event \<Rightarrow> 'w \<Rightarrow> 'w loop_state \<Rightarrow> 'w loop_state" where
  "logged ev w s = \<lparr>ls_world = w, ls_log = ls_log s @ [ev]\<rparr>"

definition failed :: "loop_event \<Rightarrow> 'w loop_state \<Rightarrow> 'w loop_state" where
  "failed ev s = \<lparr>ls_world = ls_world s, ls_log = ls_log s @ [ev]\<rparr>"

text \<open>Steps 3 to 5 of a round: plan, run, and on failure one new snapshot, plan and run.\<close>

definition plan_and_run ::
  "'w loop_env \<Rightarrow> nat \<Rightarrow> string \<Rightarrow> string \<Rightarrow> min_json \<Rightarrow> 'w loop_state
     \<Rightarrow> bool option \<times> 'w loop_state" where
  "plan_and_run env round_id user_prompt email_value snap s =
     (case env_plan env user_prompt snap email_value (ls_world s) of
        None \<Rightarrow> (None, failed (LPlan user_prompt) s)
      | Some (pl, w1) \<Rightarrow>
          (let s1 = logged (LPlan user_prompt) w1 s;
               (ok, w2) = env_run env round_id snap pl [(''EMAIL'', email_value)] (ls_world s1);
               s2 = logged LRun w2 s1
           in if ok then (Some ok, s2)
              else (case env_snapshot env (Recover round_id) (ls_world s2) of
                      None \<Rightarrow> (None, failed (LSnapshot (Recover round_id)) s2)
                    | Some (snap2, w3) \<Rightarrow>
                        (let s3 = logged (LSnapshot (Recover round_id)) w3 s2 in
                         case env_plan env user_prompt snap2 email_value (ls_world s3) of
                           None \<Rightarrow> (None, failed (LPlan user_prompt) s3)
                         | Some (pl2, w4) \<Rightarrow>
                             (let s4 = logged (LPlan user_prompt) w4 s3;
                                  (ok2, w5) = env_run env round_id snap2 pl2
                                                [(''EMAIL'', email_value)] (ls_world s4)
                              in (Some ok2, logged LRun w5 s4))))))"

datatype round_result = RBreak | RRaised | RDone bool string

text \<open>One iteration of \<open>while True\<close>: steps 1 to 5. \<open>RDone ok email\<close> carries the result of
  the round and the email value the next round starts with.\<close>

definition read_prompt ::
  "'w loop_env \<Rightarrow> string \<Rightarrow> 'w loop_state \<Rightarrow> (string \<times> 'w loop_state) option" where
  "read_prompt env user_prompt s =
     (if user_prompt = [] then
        (case env_input env (ls_world s) of
           None \<Rightarrow> None
         | Some (line, w) \<Rightarrow> Some (strip line, logged LInput w s))
      else Some (user_prompt, s))"

definition read_email ::
  "'w loop_env \<Rightarrow> string \<Rightarrow> string \<Rightarrow> 'w loop_state \<Rightarrow> (string \<times> 'w loop_state) option" where
  "read_email env user_prompt email_value s =
     (if is_substr ''email'' (lower user_prompt) \<and> email_value = [] then
        (case env_input env (ls_world s) of
           None \<Rightarrow> None
         | Some (line, w) \<Rightarrow> Some (strip line, logged LInput w s))
      else Some (email_value, s))"

definition agent_round ::
  "'w loop_env \<Rightarrow> nat \<Rightarrow> string \<Rightarrow> string \<Rightarrow> 'w loop_state \<Rightarrow> round_result \<times> 'w loop_state" where
  "agent_round env round_id user_prompt email_value s =
     (case env_snapshot env (Pre round_id) (ls_world s) of
        None \<Rightarrow> (RRaised, failed (LSnapshot (Pre round_id)) s)
      | Some (snap, w1) \<Rightarrow>
          (let s1 = logged (LSnapshot (Pre round_id)) w1 s in
           case read_prompt env user_prompt s1 of
             None \<Rightarrow> (RRaised, failed LInput s1)
           | Some (prompt, s2) \<Rightarrow>
               if lower prompt \<in> set [''exit'', ''quit''] then (RBreak, s2)
               else (case read_email env prompt email_value s2 of
                       None \<Rightarrow> (RRaised, failed LInput s2)
                     | Some (email, s3) \<Rightarrow>
                         (case plan_and_run env round_id prompt email snap s3 of
                            (None, s4) \<Rightarrow> (RRaised, s4)
                          | (Some ok, s4) \<Rightarrow> (RDone ok email, s4)))))"

text \<open>The calls of a round after a first run that failed, and two bounds on a log.\<close>

definition recovery_events :: "nat \<Rightarrow> string \<Rightarrow> loop_event list" where
  "recovery_events round_id user_prompt =
     [LPlan user_prompt, LRun, LSnapshot (Recover round_id), LPlan user_prompt, LRun]"

definition quiet :: "nat \<Rightarrow> loop_event list \<Rightarrow> bool" where
  "quiet rid evs = (count_list evs LRun = 0 \<and> count_list evs (LSnapshot (Recover rid)) = 0)"

definition bounded :: "nat \<Rightarrow> loop_event list \<Rightarrow> bool" where
  "bounded rid evs = (count_list evs LRun \<le> 2 \<and> count_list evs (LSnapshot (Recover rid)) \<le> 1)"

section \<open>Snapshot fuser\<close>

text \<open>
  The inputs of \<open>snapshot_page\<close> are the result of the DOM traversal (a list of frames, each
  with its nodes), the accessibility tree, and the similarity \<open>fuzz.token_set_ratio\<close> of
  the external library, a parameter with values between 0 and 100. The identifier that
  \<open>_uid()\<close> draws for a node is given with the node (\<open>dn_uid\<close>).
\<close>

record dom_node =
  dn_uid :: string
  dn_tag :: "string option"
  dn_role_attr :: "string option"
  dn_name :: "string option"
  dn_attrs :: "(string \<times> string) list"
  dn_display :: "string option"
  dn_visibility :: "string option"
  dn_bbox :: "bbox option"
  dn_css :: "string option"
  dn_xpath :: "string option"
  dn_frame_path :: "string list"
  dn_shadow_path :: "string list option"

record dom_frame =
  fr_path :: "string list"
  fr_nodes :: "dom_node list"

datatype ax_tree = AxNode "string option" "string option" "string option" "ax_tree list"

record ax_node =
  an_role :: "string option"
  an_name :: "string option"
  an_description :: "string option"
  an_frame_path :: "string list"

record ax_info =
  ai_role :: "string option"
  ai_name :: "string option"
  ai_description :: "string option"

record full_elem =
  fe_uid :: string
  fe_tag :: "string option"
  fe_role :: "string option"
  fe_name :: "string option"
  fe_attrs :: "(string \<times> string) list"
  fe_css :: "string option"
  fe_xpath :: "string option"
  fe_bbox :: "bbox option"
  fe_visible :: bool
  fe_display :: "string option"
  fe_visibility :: "string option"
  fe_frame_path :: "string list"
  fe_shadow_path :: "string list option"
  fe_ax :: "ax_info option"
  fe_selector_pref :: "string option"

definition str_or_none :: "string option \<Rightarrow> string option" where
  "str_or_none x =
     (case x of
        None \<Rightarrow> None
      | Some t \<Rightarrow> (let s = strip t in if s = [] then None else Some s))"

definition visible_like :: "string option \<Rightarrow> string option \<Rightarrow> bbox option \<Rightarrow> bool" where
  "visible_like display visibility box =
     (if display = Some ''none'' \<or> visibility = Some ''hidden'' then False
      else (case box of
              None \<Rightarrow> False
            | Some b \<Rightarrow> box_w b \<ge> 1 \<and> box_h b \<ge> 1))"

definition is_visible_like :: "dom_node \<Rightarrow> bool" where
  "is_visible_like n = visible_like (dn_display n) (dn_visibility n) (dn_bbox n)"

definition dquote :: string where
  "dquote = [CHR 0x22]"

definition preferred_selector ::
  "string \<Rightarrow> (string \<times> string) list \<Rightarrow> string option \<Rightarrow> string option" where
  "preferred_selector tag attrs css =
     (if truthy (map_of attrs ''aria-label'')
      then Some (''[aria-label='' @ dquote @ or_empty (map_of attrs ''aria-label'') @ dquote @ '']'')
      else if tag = ''input'' \<and> truthy (map_of attrs ''name'')
      then Some (''input[name='' @ dquote @ or_empty (map_of attrs ''name'') @ dquote @ '']'')
      else if tag = ''a'' \<and> truthy (map_of attrs ''href'')
      then Some (''a[href='' @ dquote @ or_empty (map_of attrs ''href'') @ dquote @ '']'')
      else if truthy css then css
      else None)"

definition aria_selector :: "string \<Rightarrow> string \<Rightarrow> string option" where
  "aria_selector role name =
     (if role = [] \<or> name = [] then None
      else Some (aria_of (lower (strip role)) (strip name)))"

fun flatten_ax :: "string list \<Rightarrow> ax_tree \<Rightarrow> ax_node list" where
  "flatten_ax frame_path (AxNode role name description children) =
     \<lparr>an_role = role, an_name = name, an_description = description,
      an_frame_path = frame_path\<rparr>
     # concat (map (flatten_ax frame_path) children)"

definition ax_flat_of :: "ax_tree option \<Rightarrow> ax_node list" where
  "ax_flat_of ax_root = (case ax_root of None \<Rightarrow> [] | Some t \<Rightarrow> flatten_ax [] t)"

text \<open>The DOM nodes as the first loop leaves them: name stripped, frame path of the frame.\<close>

definition dom_nodes_of :: "dom_frame list \<Rightarrow> dom_node list" where
  "dom_nodes_of frames =
     concat (map (\<lambda>fr. map (\<lambda>n. n\<lparr>dn_name := str_or_none (dn_name n),
                                      dn_frame_path := fr_path fr\<rparr>) (fr_nodes fr)) frames)"

definition node_role :: "dom_node \<Rightarrow> string option" where
  "node_role n = (if truthy (dn_role_attr n) then dn_role_attr n
                  else map_of (dn_attrs n) ''role'')"

subsection \<open>Aligning accessibility nodes to DOM nodes\<close>

definition ax_label :: "ax_node \<Rightarrow> string" where
  "ax_label ax =
     (case str_or_none (an_name ax) of
        Some n \<Rightarrow> n
      | None \<Rightarrow> or_empty (str_or_none (an_description ax)))"

definition align_score :: "(string \<Rightarrow> string \<Rightarrow> real) \<Rightarrow> ax_node \<Rightarrow> dom_node \<Rightarrow> real" where
  "align_score tsr ax dn =
     (let ax_name = ax_label ax;
          dn_text = or_empty (dn_name dn);
          text_s = (if ax_name \<noteq> [] \<or> dn_text \<noteq> [] then fdiv (tsr ax_name dn_text) 100 else 0);
          role_bonus = (if truthy (an_role ax)
                           \<and> (an_role ax = dn_role_attr dn
                                \<or> an_role ax = map_of (dn_attrs dn) ''role'')
                        then dbl (1 / 10) else 0)
      in fadd (fmul (dbl (85 / 100)) text_s) (fmul (dbl (15 / 100)) role_bonus))"

text \<open>The inner loop: the first index with the strictly greatest score so far wins.\<close>

fun best_of :: "(nat \<Rightarrow> real) \<Rightarrow> nat list \<Rightarrow> nat option \<times> real \<Rightarrow> nat option \<times> real" where
  "best_of sc [] acc = acc"
| "best_of sc (i # rest) (best, best_s) =
     (if sc i > best_s then best_of sc rest (Some i, sc i)
      else best_of sc rest (best, best_s))"

definition cand_idx_of :: "dom_node list \<Rightarrow> nat list" where
  "cand_idx_of dom_nodes = filter (\<lambda>i. is_visible_like (dom_nodes ! i)) [0..<length dom_nodes]"

definition same_frame_of :: "dom_node list \<Rightarrow> ax_node \<Rightarrow> nat list" where
  "same_frame_of dom_nodes ax =
     filter (\<lambda>i. dn_frame_path (dom_nodes ! i) = an_frame_path ax) (cand_idx_of dom_nodes)"

definition align_one :: "(string \<Rightarrow> string \<Rightarrow> real) \<Rightarrow> dom_node list \<Rightarrow> ax_node \<Rightarrow> nat option" where
  "align_one tsr dom_nodes ax =
     (case best_of (\<lambda>i. align_score tsr ax (dom_nodes ! i)) (same_frame_of dom_nodes ax)
             (None, - 1) of
        (None, best_s) \<Rightarrow> None
      | (Some best, best_s) \<Rightarrow> if best_s \<ge> 0.5 then Some best else None)"

text \<open>\<open>ax2dom\<close> as the list of its items in insertion order.\<close>

fun ax2dom_from ::
  "(string \<Rightarrow> string \<Rightarrow> real) \<Rightarrow> dom_node list \<Rightarrow> (nat \<times> ax_node) list \<Rightarrow> (nat \<times> nat) list" where
  "ax2dom_from tsr dom_nodes [] = []"
| "ax2dom_from tsr dom_nodes ((ai, ax) # rest) =
     (case align_one tsr dom_nodes ax of
        None \<Rightarrow> ax2dom_from tsr dom_nodes rest
      | Some best \<Rightarrow> (ai, best) # ax2dom_from tsr dom_nodes rest)"

definition ax2dom_of ::
  "(string \<Rightarrow> string \<Rightarrow> real) \<Rightarrow> dom_node list \<Rightarrow> ax_node list \<Rightarrow> (nat \<times> nat) list" where
  "ax2dom_of tsr dom_nodes ax_flat = ax2dom_from tsr dom_nodes (enumerate 0 ax_flat)"


subsection \<open>Full records\<close>

definition full_of_node :: "dom_node \<Rightarrow> full_elem" where
  "full_of_node dn =
     \<lparr>fe_uid = dn_uid dn, fe_tag = dn_tag dn, fe_role = node_role dn, fe_name = dn_name dn,
      fe_attrs = dn_attrs dn, fe_css = dn_css dn, fe_xpath = dn_xpath dn, fe_bbox = dn_bbox dn,
      fe_visible = is_visible_like dn, fe_display = dn_display dn,
      fe_visibility = dn_visibility dn, fe_frame_path = dn_frame_path dn,
      fe_shadow_path = dn_shadow_path dn, fe_ax = None,
      fe_selector_pref = preferred_selector (or_empty (dn_tag dn)) (dn_attrs dn) (dn_css dn)\<rparr>"

definition ax_info_of :: "ax_node \<Rightarrow> ax_info" where
  "ax_info_of ax = \<lparr>ai_role = an_role ax, ai_name = an_name ax,
                     ai_description = an_description ax\<rparr>"

text \<open>\<open>for ai, di in ax2dom.items(): full_elems[di]["ax"] = ...\<close>: a later item overwrites.\<close>

fun annotate :: "ax_node list \<Rightarrow> (nat \<times> nat) list \<Rightarrow> full_elem list \<Rightarrow> full_elem list" where
  "annotate ax_flat [] full = full"
| "annotate ax_flat ((ai, di) # rest) full =
     annotate ax_flat rest (full[di := (full ! di)\<lparr>fe_ax := Some (ax_info_of (ax_flat ! ai))\<rparr>])"

definition INTERACTIVE_ROLES :: "string list" where
  "INTERACTIVE_ROLES = [''button'', ''link'', ''textbox'', ''checkbox'', ''radio'', ''combobox'',
     ''menuitem'', ''switch'', ''tab'', ''listbox'', ''option'']"

definition INTERACTIVE_TAGS :: "string list" where
  "INTERACTIVE_TAGS = [''input'', ''button'', ''a'', ''select'', ''textarea'', ''label'']"

text \<open>
  \<open>_is_interactive\<close> on a full record. A full record has no \<open>role_attr\<close> key, so the role
  read here is the \<open>role\<close> attribute.
\<close>

definition is_interactive :: "full_elem \<Rightarrow> bool" where
  "is_interactive e =
     (if \<not> visible_like (fe_display e) (fe_visibility e) (fe_bbox e) then False
      else (let tag = lower (or_empty (fe_tag e));
                role_attr = lower (or_empty (map_of (fe_attrs e) ''role''));
                role_hit = (role_attr \<in> set INTERACTIVE_ROLES);
                tag_hit = (tag \<in> set INTERACTIVE_TAGS);
                span_linkish = (tag = ''span'' \<and> role_attr = ''link'');
                clickable_attrs = list_ex (\<lambda>k. k \<in> fst ` set (fe_attrs e))
                   [''aria-label'', ''tabindex'', ''onclick'', ''href'', ''type'',
                    ''data-react-aria-pressable''];
                provider = list_ex (\<lambda>k. starts_with k ''data-social'') (map fst (fe_attrs e))
            in role_hit \<or> tag_hit \<or> span_linkish \<or> clickable_attrs \<or> provider))"

subsection \<open>The minimal list\<close>

type_synonym dedup_key = "string option \<times> string \<times> string option"

definition key_of :: "element \<Rightarrow> dedup_key" where
  "key_of item = (el_role item, el_name item, el_selector_pref item)"

definition ax_role_of :: "full_elem \<Rightarrow> string option" where
  "ax_role_of e = (case fe_ax e of None \<Rightarrow> None | Some a \<Rightarrow> ai_role a)"

definition ax_name_of :: "full_elem \<Rightarrow> string option" where
  "ax_name_of e = (case fe_ax e of None \<Rightarrow> None | Some a \<Rightarrow> ai_name a)"

definition fused_name :: "full_elem \<Rightarrow> string" where
  "fused_name e = (if truthy (fe_name e) then or_empty (fe_name e) else or_empty (ax_name_of e))"

definition dom_item :: "full_elem \<Rightarrow> element" where
  "dom_item e =
     (let tag = lower (or_empty (fe_tag e));
          role = (if truthy (fe_role e) then fe_role e
                  else if truthy (ax_role_of e) then ax_role_of e else None);
          pref = (if truthy (fe_selector_pref e) then fe_selector_pref e
                  else preferred_selector tag (fe_attrs e) (fe_css e))
      in \<lparr>el_uid = fe_uid e, el_role = role, el_tag = Some tag,
          el_name = take 140 (fused_name e), el_selector_pref = pref, el_bbox = fe_bbox e,
          el_frame_path = fe_frame_path e, el_shadow_path = fe_shadow_path e,
          el_selector = None\<rparr>)"

fun minimal_dom ::
  "full_elem list \<Rightarrow> element list \<times> dedup_key set \<Rightarrow> element list \<times> dedup_key set" where
  "minimal_dom [] acc = acc"
| "minimal_dom (e # es) (minimal, seen) =
     (if \<not> is_interactive e then minimal_dom es (minimal, seen)
      else (let item = dom_item e; key = key_of item in
            if key \<in> seen then minimal_dom es (minimal, seen)
            else minimal_dom es (minimal @ [item], insert key seen)))"

function string_of_nat :: "nat \<Rightarrow> string" where
  "string_of_nat n =
     (if n < 10 then [''0123456789'' ! n]
      else string_of_nat (n div 10) @ [''0123456789'' ! (n mod 10)])"
  by pat_completeness auto
termination
  by (relation "measure id") auto

definition AX_FALLBACK_ROLES :: "string list" where
  "AX_FALLBACK_ROLES = [''button'', ''link'', ''textbox'', ''combobox'', ''tab'', ''menuitem'',
     ''checkbox'', ''radio'', ''listbox'', ''option'']"

definition ax_item :: "nat \<Rightarrow> ax_node \<Rightarrow> string \<Rightarrow> string \<Rightarrow> element" where
  "ax_item ai ax ax_role ax_name =
     \<lparr>el_uid = ''ax-'' @ string_of_nat ai, el_role = Some ax_role, el_tag = None,
      el_name = take 140 ax_name, el_selector_pref = aria_selector ax_role ax_name,
      el_bbox = None, el_frame_path = an_frame_path ax, el_shadow_path = None,
      el_selector = None\<rparr>"

fun ax_fallback ::
  "(nat \<times> nat) list \<Rightarrow> (nat \<times> ax_node) list \<Rightarrow> element list \<times> dedup_key set
     \<Rightarrow> element list \<times> dedup_key set" where
  "ax_fallback ax2dom [] acc = acc"
| "ax_fallback ax2dom ((ai, ax) # rest) (minimal, seen) =
     (if ai \<in> fst ` set ax2dom then ax_fallback ax2dom rest (minimal, seen)
      else (let ax_role = lower (or_empty (an_role ax));
                ax_name = strip (or_empty (an_name ax)) in
            if ax_role = [] \<or> ax_name = [] then ax_fallback ax2dom rest (minimal, seen)
            else if ax_role \<notin> set AX_FALLBACK_ROLES then ax_fallback ax2dom rest (minimal, seen)
            else (let item = ax_item ai ax ax_role ax_name; key = key_of item in
                  if key \<in> seen then ax_fallback ax2dom rest (minimal, seen)
                  else ax_fallback ax2dom rest (minimal @ [item], insert key seen))))"


subsection \<open>Last resort\<close>

datatype snap_error = SortTypeError

definition degraded_cand :: "full_elem \<Rightarrow> (real \<times> real \<times> full_elem) option" where
  "degraded_cand e =
     (let tag = lower (or_empty (fe_tag e)) in
      if tag \<notin> set [''button'', ''a'', ''input''] then None
      else (let area = (case fe_bbox e of
                          None \<Rightarrow> 0
                        | Some b \<Rightarrow> fmul (max 0 (box_w b)) (max 0 (box_h b)));
                y = (case fe_bbox e of None \<Rightarrow> 1000000000 | Some b \<Rightarrow> box_y b)
            in if fused_name e = [] then None else Some (- area, y, e)))"

fun degraded_cands :: "full_elem list \<Rightarrow> (real \<times> real \<times> full_elem) list" where
  "degraded_cands [] = []"
| "degraded_cands (e # es) =
     (case degraded_cand e of
        None \<Rightarrow> degraded_cands es
      | Some c \<Rightarrow> c # degraded_cands es)"

text \<open>
  \<open>sorted(cands)\<close> compares the tuples \<open>(-area, y, e)\<close>. Two tuples that agree on the two
  numbers and differ in the record make it compare two records, which raises
  \<open>TypeError\<close>; a sort compares every two neighbours of its result, so it raises as soon
  as the list holds such a pair. Otherwise the result is sorted by the two numbers.
\<close>

fun has_tie :: "(real \<times> real \<times> full_elem) list \<Rightarrow> bool" where
  "has_tie [] = False"
| "has_tie (c # cs) =
     (list_ex (\<lambda>d. fst c = fst d \<and> fst (snd c) = fst (snd d) \<and> snd (snd c) \<noteq> snd (snd d)) cs
      \<or> has_tie cs)"

definition sorted_cands ::
  "(real \<times> real \<times> full_elem) list \<Rightarrow> snap_error + (real \<times> real \<times> full_elem) list" where
  "sorted_cands cands =
     (if has_tie cands then Inl SortTypeError
      else Inr (sort_key (\<lambda>c. (fst c, fst (snd c))) cands))"

definition degraded_item :: "full_elem \<Rightarrow> element" where
  "degraded_item e =
     \<lparr>el_uid = fe_uid e,
      el_role = (if truthy (fe_role e) then fe_role e else ax_role_of e),
      el_tag = Some (lower (or_empty (fe_tag e))),
      el_name = take 140 (fused_name e),
      el_selector_pref = (if truthy (fe_selector_pref e) then fe_selector_pref e
                          else preferred_selector (or_empty (fe_tag e)) (fe_attrs e) (fe_css e)),
      el_bbox = fe_bbox e, el_frame_path = fe_frame_path e,
      el_shadow_path = fe_shadow_path e, el_selector = None\<rparr>"

definition degraded :: "full_elem list \<Rightarrow> snap_error + element list" where
  "degraded full =
     (case sorted_cands (degraded_cands full) of
        Inl err \<Rightarrow> Inl err
      | Inr cs \<Rightarrow> Inr (map (\<lambda>c. degraded_item (snd (snd c))) (take 10 cs)))"

subsection \<open>The snapshot\<close>

definition full_elems_of ::
  "(string \<Rightarrow> string \<Rightarrow> real) \<Rightarrow> dom_frame list \<Rightarrow> ax_tree option \<Rightarrow> full_elem list" where
  "full_elems_of tsr frames ax_root =
     (let dom_nodes = dom_nodes_of frames; ax_flat = ax_flat_of ax_root
      in annotate ax_flat (ax2dom_of tsr dom_nodes ax_flat) (map full_of_node dom_nodes))"

text \<open>The records of the two loops that share the set \<open>seen\<close>.\<close>

definition fused_minimal ::
  "(string \<Rightarrow> string \<Rightarrow> real) \<Rightarrow> dom_frame list \<Rightarrow> ax_tree option
     \<Rightarrow> element list \<times> dedup_key set" where
  "fused_minimal tsr frames ax_root =
     (let dom_nodes = dom_nodes_of frames; ax_flat = ax_flat_of ax_root
      in ax_fallback (ax2dom_of tsr dom_nodes ax_flat) (enumerate 0 ax_flat)
           (minimal_dom (full_elems_of tsr frames ax_root) ([], {})))"

text \<open>\<open>elements_min\<close> of \<open>snapshot_page\<close>, or the error that leaves it.\<close>

definition snapshot_page ::
  "(string \<Rightarrow> string \<Rightarrow> real) \<Rightarrow> dom_frame list \<Rightarrow> ax_tree option \<Rightarrow> snap_error + element list" where
  "snapshot_page tsr frames ax_root =
     (let full = full_elems_of tsr frames ax_root;
          minimal = fst (fused_minimal tsr frames ax_root)
      in if minimal = [] \<and> full \<noteq> [] then degraded full else Inr minimal)"


section \<open>Example data\<close>

definition demo_el :: "string \<Rightarrow> string option \<Rightarrow> string \<Rightarrow> bbox option \<Rightarrow> element" where
  "demo_el u r n b = \<lparr>el_uid = u, el_role = r, el_tag = None, el_name = n,
      el_selector_pref = None, el_bbox = b, el_frame_path = [], el_shadow_path = None,
      el_selector = None\<rparr>"

text \<open>
  A correctly rounded \<open>hypot\<close> for the examples. Their boxes lie on one line, so the second
  argument is 0 and the result is the absolute value of the first, as \<open>math.hypot\<close>
  returns it.
\<close>

definition hypot_cr :: "real \<Rightarrow> real \<Rightarrow> real" where
  "hypot_cr a b = dbl (sqrt (a * a + b * b))"

definition demo_box :: "real \<Rightarrow> real \<Rightarrow> bbox" where
  "demo_box x y = \<lparr>box_x = x, box_y = y, box_w = 10, box_h = 10\<rparr>"

definition continue_match :: match_spec where
  "continue_match = \<lparr>m_text = Some ''Continue'', m_role = None, m_exact = Some True,
                     m_not_contains = None\<rparr>"

definition continue_els :: "element list" where
  "continue_els = [demo_el ''g'' (Some ''button'') ''Continue with Google'' None,
                   demo_el ''c'' (Some ''link'') ''Continue'' None]"

definition ok_match :: match_spec where
  "ok_match = \<lparr>m_text = Some ''OK'', m_role = None, m_exact = None, m_not_contains = None\<rparr>"

definition ok_last :: element where
  "ok_last = demo_el ''u0'' (Some ''textbox'') ''Email'' (Some (demo_box 0 0))"

definition ok_at :: "string \<Rightarrow> real \<Rightarrow> element" where
  "ok_at u x = demo_el u (Some ''button'') ''OK'' (Some (demo_box x 0))"


definition demo_ops :: "nat page_ops" where
  "demo_ops = \<lparr>op_visible = (\<lambda>p sel t. (True, p)),
               op_click = (\<lambda>p sel. (True, Suc p)),
               op_type = (\<lambda>p sel text. (True, Suc p)),
               op_wait_url = (\<lambda>p want. (True, p)),
               op_after = None\<rparr>"

definition hover_step :: step where
  "hover_step = \<lparr>st_action = ''hover'', st_text = None, st_value = None,
                  st_target = no_target, st_role = None, st_name = None\<rparr>"

definition hover_plan :: plan where
  "hover_plan = \<lparr>p_steps = Some [hover_step]\<rparr>"

definition demo_snap :: min_json where
  "demo_snap = \<lparr>elements_min = [demo_el ''b1'' (Some ''button'') ''Continue'' None]\<rparr>"

definition continue_buttons :: "element list" where
  "continue_buttons = [demo_el ''g'' (Some ''button'') ''Continue with Google'' None,
                       demo_el ''n'' (Some ''button'') ''Continue now'' None,
                       demo_el ''l'' (Some ''button'') ''Continue later'' None]"

definition legacy_continue :: target where
  "legacy_continue = no_target\<lparr>t_role := Some ''button'', t_name := Some ''Continue''\<rparr>"

definition click_step :: "target \<Rightarrow> step" where
  "click_step t = \<lparr>st_action = ''click'', st_text = None, st_value = None,
                    st_target = t, st_role = None, st_name = None\<rparr>"

definition masked_continue :: target where
  "masked_continue = no_target\<lparr>t_match := Some \<lparr>m_text = Some ''Continue'', m_role = None,
                         m_exact = None, m_not_contains = None\<rparr>,
                       t_not_contains := Some [''now'']\<rparr>"

definition demo_env :: "nat loop_env" where
  "demo_env = \<lparr>env_snapshot = (\<lambda>label w. Some (\<lparr>elements_min = []\<rparr>, w)),
               env_input = (\<lambda>w. None),
               env_plan = (\<lambda>prompt snap email w. Some (\<lparr>p_steps = Some []\<rparr>, w)),
               env_run = (\<lambda>round_id snap pl vars w. (1 \<le> w, Suc w))\<rparr>"

definition demo_tsr :: "string \<Rightarrow> string \<Rightarrow> real" where
  "demo_tsr a b = (if a = b then 100 else 0)"

text \<open>A similarity that gives 58.8235294117647 on two different strings.\<close>

definition edge_tsr :: "string \<Rightarrow> string \<Rightarrow> real" where
  "edge_tsr a b = (if a = b then 100 else 8278675785607529 / 140737488355328)"

definition demo_node :: "string \<Rightarrow> string \<Rightarrow> string option \<Rightarrow> (string \<times> string) list
    \<Rightarrow> string option \<Rightarrow> real \<Rightarrow> dom_node" where
  "demo_node u tag name attrs visibility y =
     \<lparr>dn_uid = u, dn_tag = Some tag, dn_role_attr = None, dn_name = name, dn_attrs = attrs,
      dn_display = Some ''block'', dn_visibility = visibility,
      dn_bbox = Some \<lparr>box_x = 0, box_y = y, box_w = 50, box_h = 20\<rparr>,
      dn_css = Some (''#'' @ u), dn_xpath = None, dn_frame_path = [], dn_shadow_path = None\<rparr>"

definition nameless_frames :: "dom_frame list" where
  "nameless_frames =
     [\<lparr>fr_path = [], fr_nodes = [demo_node ''u1'' ''input'' None [(''name'', ''q'')]
                                    (Some ''visible'') 10]\<rparr>]"

definition hidden_frames :: "dom_frame list" where
  "hidden_frames =
     [\<lparr>fr_path = [],
       fr_nodes = [demo_node ''u1'' ''button'' (Some ''Close'') [(''aria-label'', ''Close'')]
                     (Some ''hidden'') 10,
                   demo_node ''u2'' ''button'' (Some ''Close'') [(''aria-label'', ''Close'')]
                     (Some ''hidden'') 40]\<rparr>]"

definition ok_frames :: "dom_frame list" where
  "ok_frames = [\<lparr>fr_path = [], fr_nodes = [demo_node ''u1'' ''div'' (Some ''OK'') []
                                             (Some ''visible'') 10]\<rparr>]"

definition ok_ax :: ax_tree where
  "ok_ax = AxNode (Some ''WebArea'') (Some ''Page'') None
             [AxNode (Some ''button'') (Some ''OK'') None [],
              AxNode (Some ''link'') (Some ''OK'') None []]"

definition hidden_full :: "string \<Rightarrow> real \<Rightarrow> full_elem" where
  "hidden_full u y =
     \<lparr>fe_uid = u, fe_tag = Some ''button'', fe_role = None, fe_name = Some ''Close'',
       fe_attrs = [(''aria-label'', ''Close'')], fe_css = Some (''#'' @ u), fe_xpath = None,
       fe_bbox = Some \<lparr>box_x = 0, box_y = y, box_w = 50, box_h = 20\<rparr>,
       fe_visible = False, fe_display = Some ''block'', fe_visibility = Some ''hidden'',
       fe_frame_path = [], fe_shadow_path = None, fe_ax = None,
       fe_selector_pref = Some (''[aria-label='' @ dquote @ ''Close'' @ dquote @ '']'')\<rparr>"

definition nameless_item :: element where
  "nameless_item =
     \<lparr>el_uid = ''u1'', el_role = None, el_tag = Some ''input'', el_name = [],
      el_selector_pref = Some (''input[name='' @ dquote @ ''q'' @ dquote @ '']''),
      el_bbox = Some \<lparr>box_x = 0, box_y = 10, box_w = 50, box_h = 20\<rparr>,
      el_frame_path = [], el_shadow_path = None, el_selector = None\<rparr>"


definition continue_pair :: "element list" where
  "continue_pair = [demo_el ''l'' (Some ''link'') ''Continue'' None,
                    demo_el ''b'' (Some ''button'') ''continue'' None,
                    demo_el ''g'' (Some ''button'') ''Continue with Google'' None]"

definition ok_button :: element where
  "ok_button = demo_el ''b'' (Some ''button'') ''OK'' None"

definition ok_link :: element where
  "ok_link = demo_el ''l'' (Some ''link'') ''OK'' (Some (demo_box 150 0))"

text \<open>A page with an observer, as \<open>main\<close> passes one: it adds 10 to the page state.\<close>

definition observed_ops :: "nat page_ops" where
  "observed_ops = \<lparr>op_visible = (\<lambda>p sel t. (True, p)),
                   op_click = (\<lambda>p sel. (True, Suc p)),
                   op_type = (\<lambda>p sel text. (True, Suc p)),
                   op_wait_url = (\<lambda>p want. (True, p)),
                   op_after = Some (\<lambda>a tgt p. p + 10)\<rparr>"

definition empty_match :: match_spec where
  "empty_match = \<lparr>m_text = None, m_role = None, m_exact = None, m_not_contains = None\<rparr>"

definition empty_match_continue :: target where
  "empty_match_continue = no_target\<lparr>t_match := Some empty_match, t_role := Some ''button'',
                            t_name := Some ''Continue'', t_not_contains := Some [''now'']\<rparr>"

section \<open>The total score in the words of the specification\<close>

text \<open>
  The specification gives the total score over the real numbers: the text score 1.0, 0.85,
  0.6 or 0 (the flat 0.3 for an empty query, 0 when \<open>exact\<close> is set and the normalised
  names differ), the role bonus 0.3, 0.2, 0.1 for textbox, button, link, and the proximity
  bonus \<open>max(0, 0.25 - distance/1000)\<close> on the Euclidean distance between the box centres.
  These definitions follow that wording; they are compared with the scores the code
  computes.
\<close>

definition spec_text_score :: "match_spec \<Rightarrow> string \<Rightarrow> real" where
  "spec_text_score m name =
     (let q = norm_opt (m_text m); t = norm_text name in
      if m_exact m = Some True \<and> q \<noteq> t then 0
      else if or_empty (m_text m) = [] then 3 / 10
      else if q = t then 1
      else if starts_with t q then 85 / 100
      else if is_substr q t then 6 / 10
      else 0)"

definition spec_role_bonus :: "string \<Rightarrow> real" where
  "spec_role_bonus role =
     (if role = ''textbox'' then 3 / 10
      else if role = ''button'' then 2 / 10
      else if role = ''link'' then 1 / 10
      else 0)"

definition spec_distance :: "bbox \<Rightarrow> bbox \<Rightarrow> real" where
  "spec_distance b b2 =
     sqrt ((box_x b + box_w b / 2 - (box_x b2 + box_w b2 / 2))\<^sup>2
           + (box_y b + box_h b / 2 - (box_y b2 + box_h b2 / 2))\<^sup>2)"

definition spec_proximity :: "element option \<Rightarrow> element \<Rightarrow> real" where
  "spec_proximity last_target el =
     (case (last_target, el_bbox el) of
        (Some lt, Some b) \<Rightarrow>
          (case el_bbox lt of
             None \<Rightarrow> 0
           | Some b2 \<Rightarrow> max 0 (1 / 4 - spec_distance b b2 / 1000))
      | _ \<Rightarrow> 0)"

definition spec_total :: "match_spec \<Rightarrow> element option \<Rightarrow> element \<Rightarrow> real" where
  "spec_total m last_target el =
     spec_text_score m (el_name el) + spec_role_bonus (norm_opt (el_role el))
       + spec_proximity last_target el"

section \<open>Properties of double arithmetic\<close>

lemma round_even_bounds: "\<bar>of_int (round_even y) - y\<bar> \<le> 1 / 2"
  unfolding round_even_def Let_def by (auto simp: abs_le_iff)

lemma round_even_mono:
  assumes "a \<le> b" shows "round_even a \<le> round_even b"
proof (cases "a = b")
  case True then show ?thesis by simp
next
  case False
  with assms have lt: "a < b" by simp
  show ?thesis
  proof (rule ccontr)
    assume "\<not> round_even a \<le> round_even b"
    then have "round_even b + 1 \<le> round_even a" by simp
    then have "of_int (round_even b) + (1::real) \<le> of_int (round_even a)"
      by (metis of_int_1 of_int_add of_int_le_iff)
    moreover have "of_int (round_even a) \<le> a + 1 / 2" "b - 1 / 2 \<le> of_int (round_even b)"
      using round_even_bounds [of a] round_even_bounds [of b] by linarith+
    ultimately show False using lt by linarith
  qed
qed

lemma round_even_of_int [simp]: "round_even (of_int k) = k"
  by (simp add: round_even_def)

lemma round_even_0 [simp]: "round_even 0 = 0"
  by (simp add: round_even_def)

lemma round_even_numeral [simp]: "round_even (numeral k) = numeral k"
  by (metis of_int_numeral round_even_of_int)

lemma round_even_minus: "round_even (- y) = - round_even y"
proof (cases "y = of_int \<lfloor>y\<rfloor>")
  case True
  then have "- y = of_int (- \<lfloor>y\<rfloor>)" by simp
  then have "round_even (- y) = - \<lfloor>y\<rfloor>" by (metis round_even_of_int)
  moreover have "round_even y = \<lfloor>y\<rfloor>" using True by (metis round_even_of_int)
  ultimately show ?thesis by simp
next
  case False
  have lo: "of_int \<lfloor>y\<rfloor> < y"
    by (metis False less_eq_real_def of_int_floor_le)
  have hi: "y < of_int \<lfloor>y\<rfloor> + 1" by linarith
  have f: "\<lfloor>- y\<rfloor> = - \<lfloor>y\<rfloor> - 1"
  proof (rule floor_unique)
    have a: "of_int (- \<lfloor>y\<rfloor> - 1) = - of_int \<lfloor>y\<rfloor> - (1::real)" by simp
    show "of_int (- \<lfloor>y\<rfloor> - 1) \<le> - y" unfolding a using hi by linarith
    show "- y < of_int (- \<lfloor>y\<rfloor> - 1) + 1" unfolding a using lo by linarith
  qed
  have e: "even (- \<lfloor>y\<rfloor> - 1) = (\<not> even \<lfloor>y\<rfloor>)" by simp
  show ?thesis
    unfolding round_even_def Let_def f e using lo hi
    by (simp; linarith)
qed

lemma ulp_exp_minus [simp]: "ulp_exp (- x) = ulp_exp x"
  by (simp add: ulp_exp_def)

lemma dbl_minus: "dbl (- x) = - dbl x"
  by (simp add: dbl_def round_even_minus)

lemma dbl_zero [simp]: "dbl 0 = 0"
  by (simp add: dbl_def)

lemma log2_bounds:
  assumes "0 < x"
  shows "2 powr of_int \<lfloor>log 2 x\<rfloor> \<le> x" "x < 2 powr (of_int \<lfloor>log 2 x\<rfloor> + 1)"
  using assms floor_log_eq_powr_iff [of x 2 "\<lfloor>log 2 x\<rfloor>"] by simp_all


lemma ulp_exp_upper:
  assumes "0 < x" shows "x < 2 powr (of_int (ulp_exp x) + 53)"
proof -
  have "x < 2 powr (of_int \<lfloor>log 2 x\<rfloor> + 1)" using assms by (rule log2_bounds)
  also have "\<dots> \<le> 2 powr (of_int (ulp_exp x) + 53)"
    using assms by (simp add: ulp_exp_def)
  finally show ?thesis .
qed

lemma ulp_exp_lower:
  assumes "0 < x" and "- 1022 \<le> \<lfloor>log 2 x\<rfloor>"
  shows "2 powr (of_int (ulp_exp x) + 52) \<le> x"
proof -
  have "ulp_exp x = \<lfloor>log 2 x\<rfloor> - 52" using assms by (simp add: ulp_exp_def)
  then have "2 powr (of_int (ulp_exp x) + 52) = 2 powr of_int \<lfloor>log 2 x\<rfloor>" by simp
  also have "\<dots> \<le> x" using assms(1) by (rule log2_bounds)
  finally show ?thesis .
qed

lemma ulp_exp_mono:
  assumes "0 < x" "x \<le> y" shows "ulp_exp x \<le> ulp_exp y"
proof -
  have "log 2 x \<le> log 2 y" using assms by simp
  then have "\<lfloor>log 2 x\<rfloor> \<le> \<lfloor>log 2 y\<rfloor>" by (rule floor_mono)
  then show ?thesis using assms by (simp add: ulp_exp_def)
qed

lemma dbl_pos_expand:
  "x \<noteq> 0 \<Longrightarrow> dbl x = of_int (round_even (x / 2 powr of_int (ulp_exp x))) * 2 powr of_int (ulp_exp x)"
  by (simp add: dbl_def)

lemma dbl_upper:
  assumes "0 < x" shows "dbl x \<le> 2 powr (of_int (ulp_exp x) + 53)"
proof -
  let ?u = "(2::real) powr of_int (ulp_exp x)"
  have u: "0 < ?u" by simp
  have "x / ?u \<le> 2 powr 53"
    using ulp_exp_upper [OF assms] u by (simp add: powr_add field_simps)
  also have "(2::real) powr 53 = of_int (2 ^ 53)" by simp
  finally have "round_even (x / ?u) \<le> round_even (of_int (2 ^ 53))" by (rule round_even_mono)
  then have "round_even (x / ?u) \<le> 2 ^ 53" by simp
  then have "of_int (round_even (x / ?u)) \<le> (2::real) ^ 53"
    by (metis of_int_le_iff of_int_numeral of_int_power)
  then have "of_int (round_even (x / ?u)) * ?u \<le> 2 ^ 53 * ?u"
    using u by (simp only: mult_le_cancel_right_pos)
  also have "2 ^ 53 * ?u = 2 powr (of_int (ulp_exp x) + 53)" by (simp add: powr_add)
  finally show ?thesis using assms by (simp add: dbl_pos_expand)
qed

lemma dbl_lower:
  assumes "0 < x" and "- 1022 \<le> \<lfloor>log 2 x\<rfloor>"
  shows "2 powr (of_int (ulp_exp x) + 52) \<le> dbl x"
proof -
  let ?u = "(2::real) powr of_int (ulp_exp x)"
  have u: "0 < ?u" by simp
  have "2 powr 52 \<le> x / ?u"
    using ulp_exp_lower [OF assms] u by (simp add: powr_add field_simps)
  moreover have "(2::real) powr 52 = of_int (2 ^ 52)" by simp
  ultimately have "round_even (of_int (2 ^ 52)) \<le> round_even (x / ?u)"
    by (metis round_even_mono)
  then have "2 ^ 52 \<le> round_even (x / ?u)" by simp
  then have "(2::real) ^ 52 \<le> of_int (round_even (x / ?u))"
    by (metis of_int_le_iff of_int_numeral of_int_power)
  then have m: "2 ^ 52 * ?u \<le> of_int (round_even (x / ?u)) * ?u"
    using u by (intro mult_right_mono) simp_all
  have "2 powr (of_int (ulp_exp x) + 52) = 2 ^ 52 * ?u" by (simp add: powr_add)
  also note m
  also have "of_int (round_even (x / ?u)) * ?u = dbl x"
    using assms(1) by (simp add: dbl_pos_expand)
  finally show ?thesis .
qed

lemma dbl_nonneg:
  assumes "0 \<le> x" shows "0 \<le> dbl x"
proof (cases "x = 0")
  case True then show ?thesis by simp
next
  case False
  let ?u = "(2::real) powr of_int (ulp_exp x)"
  have "0 \<le> x / ?u" using assms by simp
  then have "round_even 0 \<le> round_even (x / ?u)"
    by (rule round_even_mono)
  then have "0 \<le> round_even (x / ?u)" by simp
  then show ?thesis using False by (simp add: dbl_pos_expand)
qed

lemma dbl_mono_pos:
  assumes "0 < x" "x \<le> y" shows "dbl x \<le> dbl y"
proof (cases "ulp_exp x = ulp_exp y")
  case True
  let ?u = "(2::real) powr of_int (ulp_exp x)"
  have u: "0 < ?u" by simp
  have "x / ?u \<le> y / ?u" using assms u by (simp add: divide_right_mono)
  then have "round_even (x / ?u) \<le> round_even (y / ?u)" by (rule round_even_mono)
  then have "of_int (round_even (x / ?u)) * ?u \<le> of_int (round_even (y / ?u)) * ?u"
    using u by simp
  then show ?thesis using assms True by (simp add: dbl_pos_expand)
next
  case False
  with ulp_exp_mono [OF assms] have lt: "ulp_exp x + 1 \<le> ulp_exp y" by simp
  have y: "0 < y" using assms by simp
  define a where "a = \<lfloor>log 2 \<bar>x\<bar>\<rfloor>"
  define b where "b = \<lfloor>log 2 \<bar>y\<bar>\<rfloor>"
  have "ulp_exp x = max a (- 1022) - 52" "ulp_exp y = max b (- 1022) - 52"
    by (simp_all add: ulp_exp_def a_def b_def)
  with lt have "- 1022 \<le> b" by (simp add: max_def split: if_splits)
  then have "- 1022 \<le> \<lfloor>log 2 y\<rfloor>"
    unfolding b_def using y by (simp only: abs_of_pos)
  from dbl_lower [OF y this] have ly: "2 powr (of_int (ulp_exp y) + 52) \<le> dbl y" .
  have "dbl x \<le> 2 powr (of_int (ulp_exp x) + 53)" using assms(1) by (rule dbl_upper)
  also have "\<dots> \<le> 2 powr (of_int (ulp_exp y) + 52)"
    using lt by simp
  also note ly
  finally show ?thesis .
qed

lemma dbl_mono:
  assumes "x \<le> y" shows "dbl x \<le> dbl y"
proof -
  consider "0 < x" | "x \<le> 0" "0 \<le> y" | "y < 0" by linarith
  then show ?thesis
  proof cases
    case 1
    then show ?thesis using assms by (rule dbl_mono_pos)
  next
    case 2
    then have "0 \<le> dbl y" "0 \<le> dbl (- x)" by (simp_all add: dbl_nonneg)
    then show ?thesis by (simp add: dbl_minus)
  next
    case 3
    then have "0 < - y" "- y \<le> - x" using assms by simp_all
    then have "dbl (- y) \<le> dbl (- x)" by (rule dbl_mono_pos)
    then show ?thesis by (simp add: dbl_minus)
  qed
qed

lemma dbl_eval:
  assumes "0 < x" and "2 ^ 52 \<le> x * 2 ^ n" and "x * 2 ^ n < 2 ^ 53" and "n \<le> 1074"
  shows "dbl x = of_int (round_even (x * 2 ^ n)) / 2 ^ n"
proof -
  have p: "(2::real) powr (52 - real n) = 2 ^ 52 / 2 ^ n"
    by (simp add: powr_diff powr_realpow)
  have q: "(2::real) powr (53 - real n) = 2 ^ 53 / 2 ^ n"
    by (simp add: powr_diff powr_realpow)
  have "(2::real) powr of_int (52 - int n) \<le> x \<and> x < 2 powr (of_int (52 - int n) + 1)"
    using assms by (simp add: p q field_simps)
  then have "\<lfloor>log 2 x\<rfloor> = 52 - int n"
    using assms(1) by (subst floor_log_eq_powr_iff) simp_all
  then have e: "ulp_exp x = - int n" using assms(1,4) by (simp add: ulp_exp_def)
  have u: "(2::real) powr (- real n) = 1 / 2 ^ n"
    by (simp add: powr_minus powr_realpow divide_simps)
  have c: "real_of_int (- int n) = - real n" by simp
  show ?thesis
    using assms(1) unfolding dbl_pos_expand [OF less_imp_neq [OF assms(1), symmetric]] e c u
    by simp
qed

text \<open>
  The roundings that the examples need, each one by \<open>dbl_eval\<close> with the exponent of the
  argument.
\<close>

lemma dbl_v1: "dbl (900719925474099 / 18014398509481984) = 900719925474099 / 18014398509481984"
  using dbl_eval [of "900719925474099 / 18014398509481984" 57] by (simp add: round_even_def)

lemma dbl_v2: "dbl (900719925474099 / 9007199254740992) = 900719925474099 / 9007199254740992"
  using dbl_eval [of "900719925474099 / 9007199254740992" 56] by (simp add: round_even_def)

lemma dbl_v3: "dbl (1 / 10) = 3602879701896397 / 36028797018963968"
  using dbl_eval [of "1 / 10" 56] by (simp add: round_even_def)

lemma dbl_v4: "dbl (3602879701896397 / 36028797018963968) = 3602879701896397 / 36028797018963968"
  using dbl_eval [of "3602879701896397 / 36028797018963968" 56] by (simp add: round_even_def)

lemma dbl_v5: "dbl (7036874417766407 / 70368744177664000) = 7205759403792801 / 72057594037927936"
  using dbl_eval [of "7036874417766407 / 70368744177664000" 56] by (simp add: round_even_def)

lemma dbl_v6: "dbl (10808639105689183 / 72057594037927936) = 337769972052787 / 2251799813685248"
  using dbl_eval [of "10808639105689183 / 72057594037927936" 55] by (simp add: round_even_def)

lemma dbl_v7: "dbl (5404319552844595 / 36028797018963968) = 5404319552844595 / 36028797018963968"
  using dbl_eval [of "5404319552844595 / 36028797018963968" 55] by (simp add: round_even_def)

lemma dbl_v8: "dbl (3 / 20) = 5404319552844595 / 36028797018963968"
  using dbl_eval [of "3 / 20" 55] by (simp add: round_even_def)

lemma dbl_v9: "dbl (7205759403792793 / 36028797018963968) = 7205759403792793 / 36028797018963968"
  using dbl_eval [of "7205759403792793 / 36028797018963968" 55] by (simp add: round_even_def)

lemma dbl_v10: "dbl (1 / 5) = 3602879701896397 / 18014398509481984"
  using dbl_eval [of "1 / 5" 55] by (simp add: round_even_def)

lemma dbl_v11: "dbl (3602879701896397 / 18014398509481984) = 3602879701896397 / 18014398509481984"
  using dbl_eval [of "3602879701896397 / 18014398509481984" 55] by (simp add: round_even_def)

lemma dbl_v12: "dbl (5404319552844595 / 18014398509481984) = 5404319552844595 / 18014398509481984"
  using dbl_eval [of "5404319552844595 / 18014398509481984" 54] by (simp add: round_even_def)

lemma dbl_v13: "dbl (3 / 10) = 5404319552844595 / 18014398509481984"
  using dbl_eval [of "3 / 10" 54] by (simp add: round_even_def)

lemma dbl_v14: "dbl (2 / 5) = 3602879701896397 / 9007199254740992"
  using dbl_eval [of "2 / 5" 54] by (simp add: round_even_def)

lemma dbl_v15: "dbl (18014398509481983 / 36028797018963968) = 1 / 2"
  using dbl_eval [of "18014398509481983 / 36028797018963968" 54] by (simp add: round_even_def)

lemma dbl_v16: "dbl (1 / 2) = 1 / 2"
  using dbl_eval [of "1 / 2" 53] by (simp add: round_even_def)

lemma dbl_v17: "dbl (40564819207303341139303890225417 / 81129638414606681695789005144064) = 1 / 2"
  using dbl_eval [of "40564819207303341139303890225417 / 81129638414606681695789005144064" 53] by (simp add: round_even_def)

lemma dbl_v18: "dbl (8278675785607529 / 14073748835532800) = 5298352502788819 / 9007199254740992"
  using dbl_eval [of "8278675785607529 / 14073748835532800" 53] by (simp add: round_even_def)

lemma dbl_v19: "dbl (7656119366529843 / 9007199254740992) = 7656119366529843 / 9007199254740992"
  using dbl_eval [of "7656119366529843 / 9007199254740992" 53] by (simp add: round_even_def)

lemma dbl_v20: "dbl (17 / 20) = 7656119366529843 / 9007199254740992"
  using dbl_eval [of "17 / 20" 53] by (simp add: round_even_def)

lemma dbl_v21: "dbl (1) = 1"
  using dbl_eval [of "1" 52] by (simp add: round_even_def)

lemma dbl_v22: "dbl (37830236869912165 / 36028797018963968) = 4728779608739021 / 4503599627370496"
  using dbl_eval [of "37830236869912165 / 36028797018963968" 52] by (simp add: round_even_def)

lemma dbl_v23: "dbl (4728779608739021 / 4503599627370496) = 4728779608739021 / 4503599627370496"
  using dbl_eval [of "4728779608739021 / 4503599627370496" 52] by (simp add: round_even_def)

lemma dbl_v24: "dbl (9907919180215091 / 9007199254740992) = 2476979795053773 / 2251799813685248"
  using dbl_eval [of "9907919180215091 / 9007199254740992" 52] by (simp add: round_even_def)

lemma dbl_v25: "dbl (2476979795053773 / 2251799813685248) = 2476979795053773 / 2251799813685248"
  using dbl_eval [of "2476979795053773 / 2251799813685248" 52] by (simp add: round_even_def)

lemma dbl_v26: "dbl (5404319552844595 / 4503599627370496) = 5404319552844595 / 4503599627370496"
  using dbl_eval [of "5404319552844595 / 4503599627370496" 52] by (simp add: round_even_def)

lemma dbl_v27: "dbl (43234556422756761 / 36028797018963968) = 5404319552844595 / 4503599627370496"
  using dbl_eval [of "43234556422756761 / 36028797018963968" 52] by (simp add: round_even_def)

lemma dbl_v28: "dbl (43234556422756765 / 36028797018963968) = 1351079888211149 / 1125899906842624"
  using dbl_eval [of "43234556422756765 / 36028797018963968" 52] by (simp add: round_even_def)

lemma dbl_v29: "dbl (22517998136852479 / 18014398509481984) = 5 / 4"
  using dbl_eval [of "22517998136852479 / 18014398509481984" 52] by (simp add: round_even_def)

lemma dbl_v30: "dbl (6079859496950169 / 4503599627370496) = 6079859496950169 / 4503599627370496"
  using dbl_eval [of "6079859496950169 / 4503599627370496" 52] by (simp add: round_even_def)

lemma dbl_v31: "dbl (48638875975601355 / 36028797018963968) = 6079859496950169 / 4503599627370496"
  using dbl_eval [of "48638875975601355 / 36028797018963968" 52] by (simp add: round_even_def)

lemma dbl_v32: "dbl (5) = 5"
  using dbl_eval [of "5" 50] by (simp add: round_even_def)

lemma dbl_v33: "dbl (100) = 100"
  using dbl_eval [of "100" 46] by (simp add: round_even_def)

lemma dbl_v34: "dbl (7036874417766407 / 70368744177664) = 7036874417766407 / 70368744177664"
  using dbl_eval [of "7036874417766407 / 70368744177664" 46] by (simp add: round_even_def)

lemma dbl_v35: "dbl (105) = 105"
  using dbl_eval [of "105" 46] by (simp add: round_even_def)

lemma dbl_v36: "dbl (7388718138654727 / 70368744177664) = 7388718138654727 / 70368744177664"
  using dbl_eval [of "7388718138654727 / 70368744177664" 46] by (simp add: round_even_def)

lemma dbl_v37: "dbl (150) = 150"
  using dbl_eval [of "150" 45] by (simp add: round_even_def)

lemma dbl_v38: "dbl (155) = 155"
  using dbl_eval [of "155" 45] by (simp add: round_even_def)

lemma dbl_v39: "dbl (200) = 200"
  using dbl_eval [of "200" 45] by (simp add: round_even_def)

lemma dbl_v40: "dbl (205) = 205"
  using dbl_eval [of "205" 45] by (simp add: round_even_def)

lemma dbl_v41: "dbl (300) = 300"
  using dbl_eval [of "300" 44] by (simp add: round_even_def)

lemma dbl_v42: "dbl (305) = 305"
  using dbl_eval [of "305" 44] by (simp add: round_even_def)

lemma dbl_v43: "dbl (400) = 400"
  using dbl_eval [of "400" 44] by (simp add: round_even_def)

lemma dbl_v44: "dbl (405) = 405"
  using dbl_eval [of "405" 44] by (simp add: round_even_def)

lemma dbl_v45: "dbl (1000) = 1000"
  using dbl_eval [of "1000" 43] by (simp add: round_even_def)

lemmas dbl_vals = dbl_v1 dbl_v2 dbl_v3 dbl_v4 dbl_v5 dbl_v6 dbl_v7 dbl_v8 dbl_v9 dbl_v10 dbl_v11 dbl_v12 dbl_v13 dbl_v14 dbl_v15 dbl_v16 dbl_v17 dbl_v18 dbl_v19 dbl_v20 dbl_v21 dbl_v22 dbl_v23 dbl_v24 dbl_v25 dbl_v26 dbl_v27 dbl_v28 dbl_v29 dbl_v30 dbl_v31 dbl_v32 dbl_v33 dbl_v34 dbl_v35 dbl_v36 dbl_v37 dbl_v38 dbl_v39 dbl_v40 dbl_v41 dbl_v42 dbl_v43 dbl_v44 dbl_v45

lemma dbl_quarter: "dbl (1 / 4) = 1 / 4"
  using dbl_eval [of "1 / 4" 54] by (simp add: round_even_def)

lemma fadd_mono: "a \<le> b \<Longrightarrow> c \<le> d \<Longrightarrow> fadd a c \<le> fadd b d"
  unfolding fadd_def by (rule dbl_mono) simp

lemma fsub_mono: "a \<le> b \<Longrightarrow> d \<le> c \<Longrightarrow> fsub a c \<le> fsub b d"
  unfolding fsub_def by (rule dbl_mono) simp

lemma fdiv_mono: "a \<le> b \<Longrightarrow> 0 \<le> c \<Longrightarrow> fdiv a c \<le> fdiv b c"
  unfolding fdiv_def by (rule dbl_mono) (rule divide_right_mono)

text \<open>
  Below 2 the spacing of the doubles is at most \<open>2^-52\<close>, so rounding moves a number by
  at most \<open>2^-53\<close>.
\<close>

lemma dbl_error:
  assumes "0 \<le> x" "x < 2"
  shows "\<bar>dbl x - x\<bar> \<le> 1 / 2 ^ 53"
proof (cases "x = 0")
  case True
  then show ?thesis by simp
next
  case False
  with assms have pos: "0 < x" by simp
  let ?u = "(2::real) powr of_int (ulp_exp x)"
  have u: "0 < ?u" by simp
  have "log 2 x < 1" using pos assms(2) by (simp add: log_less_iff)
  then have "\<lfloor>log 2 x\<rfloor> \<le> 0" by (simp add: floor_le_iff)
  then have e: "ulp_exp x \<le> - 52" using pos by (simp add: ulp_exp_def)
  then have "?u \<le> 2 powr of_int (- 52)" by simp
  also have "(2::real) powr of_int (- 52) = 1 / 2 ^ 52"
    by (simp add: powr_minus powr_realpow divide_simps)
  finally have ub: "?u \<le> 1 / 2 ^ 52" .
  have "dbl x - x = (of_int (round_even (x / ?u)) - x / ?u) * ?u"
    using u pos by (simp add: dbl_pos_expand algebra_simps)
  then have "\<bar>dbl x - x\<bar> = \<bar>of_int (round_even (x / ?u)) - x / ?u\<bar> * ?u"
    using u by (simp add: abs_mult)
  also have "\<dots> \<le> 1 / 2 * ?u"
    using round_even_bounds [of "x / ?u"] u by (intro mult_right_mono) simp_all
  also have "\<dots> \<le> 1 / 2 * (1 / 2 ^ 52)" using ub by simp
  finally show ?thesis by simp
qed

lemma dbl_one: "dbl 1 = 1"
  using dbl_eval [of 1 52] by (simp add: round_even_def)

lemma dbl_three_halves: "dbl (3 / 2) = 3 / 2"
  using dbl_eval [of "3 / 2" 52] by (simp add: round_even_def)

lemma fadd_strict:
  assumes "0 \<le> c" "0 \<le> x" "x + 1 / 2 ^ 50 \<le> y" "c + y < 2"
  shows "fadd c x < fadd c y"
proof -
  define e :: real where "e = 1 / 2 ^ 53"
  have e8: "1 / 2 ^ 50 = 8 * e" and ep: "0 < e" by (simp_all add: e_def)
  have "\<bar>dbl (c + x) - (c + x)\<bar> \<le> e"
    unfolding e_def using assms by (intro dbl_error) simp_all
  moreover have "\<bar>dbl (c + y) - (c + y)\<bar> \<le> e"
    unfolding e_def using assms by (intro dbl_error) simp_all
  moreover have "x + 8 * e \<le> y" using assms(3) by (simp only: e8)
  ultimately have "dbl (c + x) < dbl (c + y)" using ep by linarith
  then show ?thesis by (simp only: fadd_def)
qed

section \<open>Properties of the candidate resolver\<close>

lemma cands_of_eq:
  "cands_of hyp m lt els
     = map (\<lambda>e. (- total_score hyp m lt e, e)) (filter (eligible hyp m lt) els)"
  by (induction els) (auto simp: eligible_def total_score_def split: option.splits)

lemma insort_key_fst_pair:
  "insort_key fst (k x, x) (map (\<lambda>e. (k e, e)) ys) = map (\<lambda>e. (k e, e)) (insort_key k x ys)"
  by (induction ys) auto

lemma sort_key_fst_pair:
  "sort_key fst (map (\<lambda>e. (k e, e)) xs) = map (\<lambda>e. (k e, e)) (sort_key k xs)"
  by (induction xs) (auto simp: insort_key_fst_pair)

lemma rank_candidates_sort:
  "rank_candidates hyp els m lt
     = sort_key (\<lambda>e. - total_score hyp m lt e) (filter (eligible hyp m lt) els)"
  by (simp add: rank_candidates_def cands_of_eq sort_key_fst_pair comp_def)

lemma set_rank_candidates:
  "set (rank_candidates hyp els m lt) = {e \<in> set els. eligible hyp m lt e}"
  by (simp add: rank_candidates_sort)

lemma eligible_iff:
  "eligible hyp m lt el \<longleftrightarrow>
     (truthy (m_role m) \<longrightarrow> norm_opt (m_role m) = norm_opt (el_role el))
     \<and> el_name el \<noteq> []
     \<and> \<not> is_blocked (el_name el) (not_contains_of m)
     \<and> 0 < s_txt m (el_name el)"
  by (auto simp: eligible_def cand_score_def Let_def)

lemma total_score_eligible:
  "eligible hyp m lt el \<Longrightarrow>
   total_score hyp m lt el
     = fadd (fadd (s_txt m (el_name el)) (s_role (norm_opt (el_role el)))) (s_near hyp lt el)"
  by (auto simp: eligible_def total_score_def cand_score_def Let_def split: if_splits)

lemma s_near_nonneg: "0 \<le> s_near hyp lt el"
  by (simp add: s_near_def Let_def split: option.splits)

lemma s_near_no_box: "el_bbox el = None \<Longrightarrow> s_near hyp lt el = 0"
  by (simp add: s_near_def split: option.splits)

text \<open>
  The inner \<open>min\<close> of the proximity bonus changes nothing: the bonus is
  \<open>max(0, 0.25 - d/1000)\<close> with the division and the subtraction rounded.
\<close>

lemma near_bonus_clamp:
  "max 0 (fsub (1 / 4) (min v (1 / 4))) = max 0 (fsub (1 / 4) v)"
proof (cases "v \<le> 1 / 4")
  case True
  then show ?thesis by (simp add: min_def)
next
  case False
  then have "1 / 4 - v \<le> 0" by simp
  then have "dbl (1 / 4 - v) \<le> dbl 0" by (rule dbl_mono)
  then have "fsub (1 / 4) v \<le> 0" by (simp add: fsub_def)
  moreover have "fsub (1 / 4) (1 / 4) = 0" by (simp add: fsub_def)
  ultimately show ?thesis using False by (simp add: min_def max_def)
qed

lemma s_near_formula:
  "el_bbox el = Some b \<Longrightarrow> el_bbox l = Some b2 \<Longrightarrow>
   s_near hyp (Some l) el = max 0 (fsub (1 / 4) (fdiv (center_dist hyp b b2) 1000))"
  by (simp add: s_near_def Let_def near_bonus_clamp)

lemma near_bonus_antimono:
  assumes "d1 \<le> d2"
  shows "max 0 (fsub (1 / 4) (fdiv d2 1000)) \<le> max 0 (fsub (1 / 4) (fdiv d1 1000))"
proof -
  have "fdiv d1 1000 \<le> fdiv d2 1000" using assms by (rule fdiv_mono) simp
  then have "fsub (1 / 4) (fdiv d2 1000) \<le> fsub (1 / 4) (fdiv d1 1000)"
    by (intro fsub_mono) simp_all
  then show ?thesis by (simp add: max_def)
qed

lemma near_bonus_far:
  assumes "250 \<le> d"
  shows "max 0 (fsub (1 / 4) (fdiv d 1000)) = 0"
proof -
  have "1 / 4 \<le> d / 1000" using assms by simp
  then have "dbl (1 / 4) \<le> dbl (d / 1000)" by (rule dbl_mono)
  then have "1 / 4 - fdiv d 1000 \<le> 0" by (simp add: dbl_quarter fdiv_def)
  then have "dbl (1 / 4 - fdiv d 1000) \<le> dbl 0" by (rule dbl_mono)
  then show ?thesis by (simp add: fsub_def max_def)
qed

lemma near_bonus_bounds:
  assumes "0 \<le> d" "d \<le> 250"
  shows "1 / 4 - d / 1000 - 1 / 2 ^ 52 \<le> max 0 (fsub (1 / 4) (fdiv d 1000))"
    and "max 0 (fsub (1 / 4) (fdiv d 1000)) \<le> 1 / 4 - d / 1000 + 1 / 2 ^ 52"
proof -
  define e :: real where "e = 1 / 2 ^ 53"
  define q where "q = fdiv d 1000"
  define f where "f = fsub (1 / 4) q"
  have e2: "1 / 2 ^ 52 = 2 * e" by (simp add: e_def)
  have r: "0 \<le> d / 1000" "d / 1000 \<le> 1 / 4" "d / 1000 < 2" using assms by simp_all
  have q0: "0 \<le> q" unfolding q_def fdiv_def using r(1) by (rule dbl_nonneg)
  have "dbl (d / 1000) \<le> dbl (1 / 4)" using r(2) by (rule dbl_mono)
  then have q1: "q \<le> 1 / 4" by (simp add: q_def fdiv_def dbl_quarter)
  have qe: "\<bar>q - d / 1000\<bar> \<le> e"
    unfolding q_def fdiv_def e_def using r(1) r(3) by (rule dbl_error)
  have y: "0 \<le> 1 / 4 - q" "1 / 4 - q < 2" using q0 q1 by simp_all
  have ye: "\<bar>f - (1 / 4 - q)\<bar> \<le> e"
    unfolding f_def fsub_def e_def using y by (rule dbl_error)
  have "1 / 4 - d / 1000 - 2 * e \<le> max 0 f" using qe ye by linarith
  then show "1 / 4 - d / 1000 - 1 / 2 ^ 52 \<le> max 0 (fsub (1 / 4) (fdiv d 1000))"
    by (simp only: e2 f_def q_def)
  have "max 0 f \<le> 1 / 4 - d / 1000 + 2 * e" using qe ye r(2) by linarith
  then show "max 0 (fsub (1 / 4) (fdiv d 1000)) \<le> 1 / 4 - d / 1000 + 1 / 2 ^ 52"
    by (simp only: e2 f_def q_def)
qed

lemma near_bonus_le_quarter:
  assumes "0 \<le> d"
  shows "max 0 (fsub (1 / 4) (fdiv d 1000)) \<le> 1 / 4"
proof -
  have "0 \<le> fdiv d 1000" unfolding fdiv_def by (rule dbl_nonneg) (use assms in simp)
  then have "dbl (1 / 4 - fdiv d 1000) \<le> dbl (1 / 4)" by (intro dbl_mono) simp
  then show ?thesis by (simp add: fsub_def dbl_quarter)
qed

lemma near_bonus_gap:
  assumes "0 \<le> d1" "d1 \<le> 249" "d1 + 1 / 1000 \<le> d2"
  shows "max 0 (fsub (1 / 4) (fdiv d2 1000)) + 1 / 2 ^ 50
           \<le> max 0 (fsub (1 / 4) (fdiv d1 1000))"
proof -
  define e :: real where "e = 1 / 2 ^ 52"
  define n1 where "n1 = max 0 (fsub (1 / 4) (fdiv d1 1000))"
  define n2 where "n2 = max 0 (fsub (1 / 4) (fdiv d2 1000))"
  have e4: "1 / 2 ^ 50 = 4 * e" by (simp add: e_def)
  have es: "6 * e \<le> 1 / 1000000" by (simp add: e_def)
  have a: "1 / 4 - d1 / 1000 - e \<le> n1"
    unfolding n1_def e_def using assms by (intro near_bonus_bounds) simp_all
  have "n2 + 4 * e \<le> n1"
  proof (cases "d2 \<le> 250")
    case True
    have b: "n2 \<le> 1 / 4 - d2 / 1000 + e"
      unfolding n2_def e_def using assms True by (intro near_bonus_bounds) simp_all
    have "d1 / 1000 + 1 / 1000000 \<le> d2 / 1000" using assms(3) by simp
    with a b es show ?thesis by linarith
  next
    case False
    then have z: "n2 = 0" unfolding n2_def by (intro near_bonus_far) simp
    have "d1 / 1000 \<le> 249 / 1000" using assms(2) by simp
    with a es show ?thesis unfolding z by linarith
  qed
  then show ?thesis by (simp only: e4 n1_def n2_def)
qed

lemma s_role_cases:
  "s_role role = (if role = ''textbox'' then 5404319552844595 / 18014398509481984
                  else if role = ''button'' then 7205759403792793 / 36028797018963968
                  else if role = ''link'' then 900719925474099 / 9007199254740992
                  else 0)"
  by (simp add: s_role_def PREFER_ROLES_def fsub_def fmul_def dbl_vals)

lemma s_role_bounds: "0 \<le> s_role role" "s_role role \<le> 1 / 2"
  by (simp_all add: s_role_cases)

lemma score_text_le_1: "score_text q t \<le> 1"
proof -
  have "dbl (85 / 100) \<le> dbl 1" "dbl (6 / 10) \<le> dbl 1" by (intro dbl_mono; simp)+
  then show ?thesis by (simp add: score_text_def Let_def dbl_one)
qed

lemma s_txt_le_1: "s_txt m n \<le> 1"
proof -
  have "dbl (3 / 10) \<le> dbl 1" by (intro dbl_mono) simp
  then show ?thesis using score_text_le_1 by (simp add: s_txt_def Let_def dbl_one)
qed

lemma base_score_bounds:
  assumes "0 \<le> t" "t \<le> 1"
  shows "0 \<le> fadd t (s_role role)" "fadd t (s_role role) \<le> 3 / 2"
proof -
  show "0 \<le> fadd t (s_role role)"
    unfolding fadd_def using assms(1) s_role_bounds(1) [of role] by (intro dbl_nonneg) simp
  have "dbl (t + s_role role) \<le> dbl (3 / 2)"
    using assms(2) s_role_bounds(2) [of role] by (intro dbl_mono) simp
  then show "fadd t (s_role role) \<le> 3 / 2" by (simp add: fadd_def dbl_three_halves)
qed

lemma s_txt_norm_cong:
  assumes "norm_text n1 = norm_text n2"
  shows "s_txt m n1 = s_txt m n2"
  by (simp only: s_txt_def score_text_def assms)

lemma rank_candidates_sorted:
  "sorted_wrt (\<lambda>a b. total_score hyp m lt b \<le> total_score hyp m lt a)
     (rank_candidates hyp els m lt)"
proof -
  have "sorted (map (\<lambda>e. - total_score hyp m lt e) (rank_candidates hyp els m lt))"
    unfolding rank_candidates_sort by (rule sorted_sort_key)
  then show ?thesis by (simp add: sorted_wrt_map)
qed

lemma rank_candidates_order:
  assumes "total_score hyp m lt b < total_score hyp m lt a"
    and "i < length (rank_candidates hyp els m lt)"
    and "j < length (rank_candidates hyp els m lt)"
    and "rank_candidates hyp els m lt ! i = a" and "rank_candidates hyp els m lt ! j = b"
  shows "i < j"
proof (rule ccontr)
  let ?R = "rank_candidates hyp els m lt"
  assume "\<not> i < j"
  moreover have "i \<noteq> j" using assms by auto
  ultimately have ji: "j < i" by simp
  have "sorted_wrt (\<lambda>x y. total_score hyp m lt y \<le> total_score hyp m lt x) ?R"
    by (rule rank_candidates_sorted)
  then have "total_score hyp m lt (?R ! i) \<le> total_score hyp m lt (?R ! j)"
    using ji assms(2) by (simp add: sorted_wrt_iff_nth_less)
  with assms show False by simp
qed

lemma rank_candidates_hd_greatest:
  assumes "e \<in> set (rank_candidates hyp els m lt)"
  shows "total_score hyp m lt e \<le> total_score hyp m lt (hd (rank_candidates hyp els m lt))"
proof (cases "rank_candidates hyp els m lt")
  case Nil
  with assms show ?thesis by simp
next
  case (Cons x xs)
  from rank_candidates_sorted [of hyp m lt els]
  have "\<forall>y \<in> set xs. total_score hyp m lt y \<le> total_score hyp m lt x"
    by (simp add: Cons)
  with assms show ?thesis by (auto simp: Cons)
qed

lemma rank_candidates_tie_order:
  assumes "eligible hyp m lt a" "eligible hyp m lt b"
    and "total_score hyp m lt a = total_score hyp m lt b"
  shows "filter (\<lambda>e. e = a \<or> e = b) (rank_candidates hyp els m lt)
           = filter (\<lambda>e. e = a \<or> e = b) els"
proof -
  let ?k = "- total_score hyp m lt a"
  let ?key = "\<lambda>e. - total_score hyp m lt e"
  let ?P = "\<lambda>e. e = a \<or> e = b"
  let ?R = "rank_candidates hyp els m lt"
  have st: "filter (\<lambda>e. ?key e = ?k) ?R = filter (\<lambda>e. ?key e = ?k) (filter (eligible hyp m lt) els)"
    unfolding rank_candidates_sort by (rule sort_key_stable)
  have a1: "filter ?P (filter (\<lambda>e. ?key e = ?k) xs) = filter ?P xs" for xs
    using assms(3) by (induction xs) auto
  have a2: "filter ?P (filter (eligible hyp m lt) xs) = filter ?P xs" for xs
    using assms(1,2) by (induction xs) auto
  have "filter ?P ?R = filter ?P (filter (\<lambda>e. ?key e = ?k) ?R)" by (simp only: a1)
  also have "\<dots> = filter ?P (filter (\<lambda>e. ?key e = ?k) (filter (eligible hyp m lt) els))"
    by (simp only: st)
  also have "\<dots> = filter ?P (filter (eligible hyp m lt) els)" by (simp only: a1)
  also have "\<dots> = filter ?P els" by (simp only: a2)
  finally show ?thesis .
qed

text \<open>The default blocklist is part of every ranking, whatever the match object says.\<close>

lemma is_blocked_append:
  "is_blocked t (xs @ ys) = (is_blocked t xs \<or> is_blocked t ys)"
  by (induction xs) auto

lemma default_blocklist_always:
  "e \<in> set (rank_candidates hyp els m lt) \<Longrightarrow> \<not> is_blocked (el_name e) NEG_DEFAULT"
  by (simp add: set_rank_candidates eligible_iff not_contains_of_def is_blocked_append)

lemma ranked_names: "e \<in> set (rank_candidates hyp els m lt) \<Longrightarrow> el_name e \<noteq> []"
  by (simp add: set_rank_candidates eligible_iff)

subsection \<open>Evaluation on the examples\<close>

lemmas ev = norm_text_def lower_def strip_def is_space_def lower_char_def upper_chars_def
  lower_chars_def NEG_DEFAULT_def

lemma norm_Continue: "norm_text ''Continue'' = ''continue''"
  by (simp add: ev)

lemma norm_continue: "norm_text ''continue'' = ''continue''"
  by (simp add: ev)

lemma norm_text_Nil: "norm_text [] = []"
  by (simp add: norm_text_def lower_def strip_def)

lemma norm_NEG_DEFAULT:
  "map norm_text NEG_DEFAULT = [''with google'', ''with apple'', ''with facebook'', ''with'']"
  by (simp add: ev)

lemma norm_Google: "norm_text ''Continue with Google'' = ''continue with google''"
  by (simp add: ev)

lemma norm_OK: "norm_text ''OK'' = ''ok''"
  by (simp add: ev)

lemma norm_roles:
  "norm_text ''button'' = ''button''"
  "norm_text ''link'' = ''link''"
  "norm_text ''textbox'' = ''textbox''"
  by (simp_all add: ev)

lemma continue_not_blocked:
  assumes "norm_text n = ''continue''"
  shows "\<not> is_blocked n NEG_DEFAULT"
proof -
  have "\<not> is_blocked n [''with google'', ''with apple'', ''with facebook'', ''with'']"
    using norm_NEG_DEFAULT by (simp add: assms NEG_DEFAULT_def)
  then show ?thesis by (simp add: NEG_DEFAULT_def)
qed

lemma google_blocked: "is_blocked ''Continue with Google'' NEG_DEFAULT"
  using norm_NEG_DEFAULT by (simp add: NEG_DEFAULT_def norm_Google)

lemma ok_not_blocked: "\<not> is_blocked ''OK'' NEG_DEFAULT"
  using norm_NEG_DEFAULT by (simp add: NEG_DEFAULT_def norm_OK)

lemma eligible_continue:
  "eligible hyp continue_match lt e \<longleftrightarrow> norm_text (el_name e) = ''continue''"
proof
  assume "eligible hyp continue_match lt e"
  then have "0 < s_txt continue_match (el_name e)" by (simp add: eligible_iff)
  then show "norm_text (el_name e) = ''continue''"
    by (auto simp: s_txt_def continue_match_def or_empty_def norm_Continue Let_def split: if_splits)
next
  assume n: "norm_text (el_name e) = ''continue''"
  then have ne: "el_name e \<noteq> []" by (cases "el_name e") (simp_all add: norm_text_Nil)
  have "s_txt continue_match (el_name e) = 1"
    using n by (simp add: s_txt_def continue_match_def or_empty_def norm_Continue score_text_def)
  then show "eligible hyp continue_match lt e"
    using n ne continue_not_blocked [OF n]
    by (simp add: eligible_iff not_contains_of_def continue_match_def truthy_def or_empty_def)
qed

lemma s_role_vals:
  "s_role ''textbox'' = 5404319552844595 / 18014398509481984"
  "s_role ''button'' = 7205759403792793 / 36028797018963968"
  "s_role ''link'' = 900719925474099 / 9007199254740992"
  by (simp_all add: s_role_def PREFER_ROLES_def fsub_def fmul_def dbl_vals)

lemma hypot_cr_zero: "hypot_cr a 0 = dbl \<bar>a\<bar>"
  by (simp add: hypot_cr_def)

lemma demo_center_dist:
  "center_dist hypot_cr (demo_box 100 0) (demo_box 0 0) = 100"
  "center_dist hypot_cr (demo_box 150 0) (demo_box 0 0) = 150"
  "center_dist hypot_cr (demo_box 200 0) (demo_box 0 0) = 200"
  "center_dist hypot_cr (demo_box 300 0) (demo_box 0 0) = 300"
  "center_dist hypot_cr (demo_box 400 0) (demo_box 0 0) = 400"
  by (simp_all add: center_dist_def demo_box_def hypot_cr_zero fadd_def fsub_def fdiv_def dbl_vals)

lemma cand_score_ok_at:
  "cand_score hypot_cr ok_match (Some ok_last) (ok_at u 100)
     = Some (6079859496950169 / 4503599627370496)"
  "cand_score hypot_cr ok_match (Some ok_last) (ok_at u 200) = Some (5 / 4)"
  "cand_score hypot_cr ok_match (Some ok_last) (ok_at u 300)
     = Some (5404319552844595 / 4503599627370496)"
  "cand_score hypot_cr ok_match (Some ok_last) (ok_at u 400)
     = Some (5404319552844595 / 4503599627370496)"
  using ok_not_blocked
  by (simp_all add: cand_score_def ok_match_def ok_at_def ok_last_def demo_el_def truthy_def
      or_empty_def not_contains_of_def s_txt_def score_text_def norm_OK s_near_def
      demo_center_dist s_role_vals norm_opt_def norm_roles fadd_def fsub_def fdiv_def dbl_vals)

lemma cand_score_ok_pair:
  "cand_score hypot_cr ok_match (Some ok_last) ok_button
     = Some (5404319552844595 / 4503599627370496)"
  "cand_score hypot_cr ok_match (Some ok_last) ok_link
     = Some (1351079888211149 / 1125899906842624)"
  using ok_not_blocked
  by (simp_all add: cand_score_def ok_match_def ok_button_def ok_link_def ok_last_def demo_el_def
      truthy_def or_empty_def not_contains_of_def s_txt_def score_text_def norm_OK s_near_def
      demo_center_dist s_role_vals norm_opt_def norm_roles fadd_def fsub_def fdiv_def dbl_vals)

lemma spec_distance_demo: "spec_distance (demo_box x 0) (demo_box 0 0) = \<bar>x\<bar>"
  by (simp add: spec_distance_def demo_box_def)

lemma spec_total_ok_pair:
  "spec_total ok_match (Some ok_last) ok_button = 6 / 5"
  "spec_total ok_match (Some ok_last) ok_link = 6 / 5"
  by (simp_all add: spec_total_def spec_text_score_def spec_role_bonus_def spec_proximity_def
      spec_distance_demo ok_match_def ok_button_def ok_link_def ok_last_def demo_el_def
      or_empty_def norm_opt_def norm_OK norm_roles)

text \<open>
  Claim C7 as stated fails. A button named \<open>OK\<close> without a box and a link named \<open>OK\<close> 150 px
  from the last target both have the total score 1.2 by the constants of the
  specification (1.0 + 0.2 + 0 and 1.0 + 0.1 + 0.1), and the button comes first in the
  snapshot; the code adds rounded doubles, gets 1.2 for the button and
  1.2000000000000002 for the link, and ranks the link first.
\<close>

theorem rounded_sum_tie_counterexample:
  "spec_total ok_match (Some ok_last) ok_button = spec_total ok_match (Some ok_last) ok_link
   \<and> eligible hypot_cr ok_match (Some ok_last) ok_button
   \<and> eligible hypot_cr ok_match (Some ok_last) ok_link
   \<and> total_score hypot_cr ok_match (Some ok_last) ok_button
        = 5404319552844595 / 4503599627370496
   \<and> total_score hypot_cr ok_match (Some ok_last) ok_link
        = 1351079888211149 / 1125899906842624
   \<and> rank_candidates hypot_cr [ok_button, ok_link] ok_match (Some ok_last)
        = [ok_link, ok_button]"
  by (simp add: spec_total_ok_pair eligible_def total_score_def rank_candidates_def
      cand_score_ok_pair)

text \<open>
  Claim C7, as amended. For every element list, match object and optional last target, the
  candidate resolver returns exactly the eligible candidates (each as often as it is in
  the snapshot), sorted by descending total score, and the candidates of any one total
  score keep their snapshot order, where the total score is the double that the code
  computes: the text score plus the role bonus, rounded, plus the proximity bonus,
  rounded. Two candidates whose scores are equal as real numbers need not tie. An element
  is eligible when its role passes the strict role filter, its name is not empty and not
  blocked, and its text score is positive.
\<close>

theorem rank_candidates_sorted_stable:
  "mset (rank_candidates hyp els m lt) = mset (filter (eligible hyp m lt) els)
   \<and> sorted_wrt (\<lambda>a b. total_score hyp m lt a \<ge> total_score hyp m lt b)
        (rank_candidates hyp els m lt)
   \<and> filter (\<lambda>e. total_score hyp m lt e = k) (rank_candidates hyp els m lt)
       = filter (\<lambda>e. total_score hyp m lt e = k) (filter (eligible hyp m lt) els)
   \<and> (\<forall>e \<in> set (rank_candidates hyp els m lt).
        total_score hyp m lt e
          = fadd (fadd (s_txt m (el_name e)) (s_role (norm_opt (el_role e)))) (s_near hyp lt e))
   \<and> (\<forall>e. eligible hyp m lt e =
          ((truthy (m_role m) \<longrightarrow> norm_opt (m_role m) = norm_opt (el_role e))
           \<and> el_name e \<noteq> []
           \<and> \<not> is_blocked (el_name e) (not_contains_of m)
           \<and> 0 < s_txt m (el_name e)))"
proof -
  let ?key = "\<lambda>e. - total_score hyp m lt e"
  let ?R = "rank_candidates hyp els m lt"
  have R: "?R = sort_key ?key (filter (eligible hyp m lt) els)"
    by (rule rank_candidates_sort)
  have s: "sorted_wrt (\<lambda>a b. total_score hyp m lt a \<ge> total_score hyp m lt b) ?R"
    by (rule rank_candidates_sorted)
  have "filter (\<lambda>e. ?key e = - k) ?R
          = filter (\<lambda>e. ?key e = - k) (filter (eligible hyp m lt) els)"
    unfolding R by (rule sort_key_stable)
  then have st: "filter (\<lambda>e. total_score hyp m lt e = k) ?R
       = filter (\<lambda>e. total_score hyp m lt e = k) (filter (eligible hyp m lt) els)"
    by simp
  have ms: "mset ?R = mset (filter (eligible hyp m lt) els)" unfolding R by simp
  have sc: "\<forall>e \<in> set ?R. total_score hyp m lt e
          = fadd (fadd (s_txt m (el_name e)) (s_role (norm_opt (el_role e)))) (s_near hyp lt e)"
    by (simp add: set_rank_candidates total_score_eligible)
  have el: "\<forall>e. eligible hyp m lt e =
          ((truthy (m_role m) \<longrightarrow> norm_opt (m_role m) = norm_opt (el_role e))
           \<and> el_name e \<noteq> []
           \<and> \<not> is_blocked (el_name e) (not_contains_of m)
           \<and> 0 < s_txt m (el_name e))"
    by (simp add: eligible_iff)
  from ms s st sc el show ?thesis
    by - (intro conjI, assumption+)
qed

theorem rank_candidates_sorted_stable_witness:
  "rank_candidates hypot_cr [ok_button, ok_link] ok_match (Some ok_last) = [ok_link, ok_button]
   \<and> total_score hypot_cr ok_match (Some ok_last) ok_link
        = fadd (fadd (s_txt ok_match (el_name ok_link)) (s_role (norm_opt (el_role ok_link))))
            (s_near hypot_cr (Some ok_last) ok_link)
   \<and> sorted_wrt (\<lambda>a b. total_score hypot_cr ok_match (Some ok_last) a
                          \<ge> total_score hypot_cr ok_match (Some ok_last) b)
        (rank_candidates hypot_cr [ok_button, ok_link] ok_match (Some ok_last))
   \<and> mset (rank_candidates hypot_cr [ok_button, ok_link] ok_match (Some ok_last))
        = mset (filter (eligible hypot_cr ok_match (Some ok_last)) [ok_button, ok_link])"
proof -
  let ?R = "rank_candidates hypot_cr [ok_button, ok_link] ok_match (Some ok_last)"
  have ev1: "?R = [ok_link, ok_button]"
    by (simp add: rank_candidates_def cand_score_ok_pair)
  then have mem: "ok_link \<in> set ?R"
    by simp
  note inst = rank_candidates_sorted_stable
         [where hyp = hypot_cr and els = "[ok_button, ok_link]" and m = ok_match
            and lt = "Some ok_last" and k = 0]
  from inst
  have srt: "sorted_wrt (\<lambda>a b. total_score hypot_cr ok_match (Some ok_last) a
                                  \<ge> total_score hypot_cr ok_match (Some ok_last) b) ?R"
    by (elim conjE)
  from inst
  have ms: "mset ?R = mset (filter (eligible hypot_cr ok_match (Some ok_last)) [ok_button, ok_link])"
    by (elim conjE)
  from inst
  have all: "\<forall>e \<in> set ?R. total_score hypot_cr ok_match (Some ok_last) e
          = fadd (fadd (s_txt ok_match (el_name e)) (s_role (norm_opt (el_role e))))
              (s_near hypot_cr (Some ok_last) e)"
    by (elim conjE)
  from all mem have "total_score hypot_cr ok_match (Some ok_last) ok_link
        = fadd (fadd (s_txt ok_match (el_name ok_link)) (s_role (norm_opt (el_role ok_link))))
            (s_near hypot_cr (Some ok_last) ok_link)"
    by (rule bspec)
  with ev1 srt ms show ?thesis by (intro conjI)
qed

text \<open>
  Claim C8 as stated fails: at 300 px and 400 px from the last target both bonuses are 0,
  the scores tie, and the farther element, first in the snapshot, stays first.
\<close>

theorem far_first_counterexample:
  "rank_candidates hypot_cr [ok_at ''far'' 400, ok_at ''near'' 300] ok_match (Some ok_last)
     = [ok_at ''far'' 400, ok_at ''near'' 300]
   \<and> center_dist hypot_cr (demo_box 300 0) (demo_box 0 0)
       < center_dist hypot_cr (demo_box 400 0) (demo_box 0 0)
   \<and> spec_distance (demo_box 300 0) (demo_box 0 0) < spec_distance (demo_box 400 0) (demo_box 0 0)"
  by (simp add: rank_candidates_def cand_score_ok_at demo_center_dist spec_distance_demo)

lemma eligible_ok_at:
  "eligible hypot_cr ok_match (Some ok_last) (ok_at u 100)"
  "eligible hypot_cr ok_match (Some ok_last) (ok_at u 200)"
  by (simp_all add: eligible_def cand_score_ok_at)

text \<open>
  Claim C8, as amended. Two eligible candidates with equal normalised name and role, both
  with a bounding box, and a last target with a bounding box, the first not farther from
  the last target's centre than the second (distances as the code computes them). The
  proximity bonus of each is \<open>max(0, 0.25 - distance/1000)\<close> with the division and the
  subtraction rounded, and never negative; the bonus and the total score of the nearer
  one are not smaller. When its total score is greater, every occurrence of the nearer
  one comes before every occurrence of the farther one; when the totals are equal, the
  two keep their snapshot order. The total of the nearer one is greater, and it comes
  first, whenever it is at most 249 px away and at least 0.001 px nearer than the other.
  From 250 px on both bonuses are 0 and the totals are equal.
\<close>

theorem proximity_tie_break:
  assumes inl: "a \<in> set els" "b \<in> set els"
    and el: "eligible hyp m (Some lt) a" "eligible hyp m (Some lt) b"
    and same: "norm_text (el_name a) = norm_text (el_name b)"
              "norm_opt (el_role a) = norm_opt (el_role b)"
    and boxes: "el_bbox a = Some ba" "el_bbox b = Some bb" "el_bbox lt = Some bl"
    and nearer: "center_dist hyp ba bl \<le> center_dist hyp bb bl"
  shows "a \<in> set (rank_candidates hyp els m (Some lt))
       \<and> b \<in> set (rank_candidates hyp els m (Some lt))
       \<and> s_near hyp (Some lt) a = max 0 (fsub (1 / 4) (fdiv (center_dist hyp ba bl) 1000))
       \<and> s_near hyp (Some lt) b = max 0 (fsub (1 / 4) (fdiv (center_dist hyp bb bl) 1000))
       \<and> 0 \<le> s_near hyp (Some lt) b
       \<and> s_near hyp (Some lt) b \<le> s_near hyp (Some lt) a
       \<and> total_score hyp m (Some lt) b \<le> total_score hyp m (Some lt) a
       \<and> (total_score hyp m (Some lt) b < total_score hyp m (Some lt) a \<longrightarrow>
            (\<forall>i j. i < length (rank_candidates hyp els m (Some lt))
                \<and> j < length (rank_candidates hyp els m (Some lt))
                \<and> rank_candidates hyp els m (Some lt) ! i = a
                \<and> rank_candidates hyp els m (Some lt) ! j = b \<longrightarrow> i < j))
       \<and> (total_score hyp m (Some lt) a = total_score hyp m (Some lt) b \<longrightarrow>
            filter (\<lambda>e. e = a \<or> e = b) (rank_candidates hyp els m (Some lt))
              = filter (\<lambda>e. e = a \<or> e = b) els)
       \<and> (0 \<le> center_dist hyp ba bl \<and> center_dist hyp ba bl \<le> 249
            \<and> center_dist hyp ba bl + 1 / 1000 \<le> center_dist hyp bb bl \<longrightarrow>
            total_score hyp m (Some lt) b < total_score hyp m (Some lt) a
            \<and> (\<forall>i j. i < length (rank_candidates hyp els m (Some lt))
                \<and> j < length (rank_candidates hyp els m (Some lt))
                \<and> rank_candidates hyp els m (Some lt) ! i = a
                \<and> rank_candidates hyp els m (Some lt) ! j = b \<longrightarrow> i < j))
       \<and> (250 \<le> center_dist hyp ba bl \<longrightarrow>
            s_near hyp (Some lt) a = 0 \<and> s_near hyp (Some lt) b = 0
            \<and> total_score hyp m (Some lt) a = total_score hyp m (Some lt) b)"
proof -
  let ?R = "rank_candidates hyp els m (Some lt)"
  have na: "s_near hyp (Some lt) a = max 0 (fsub (1 / 4) (fdiv (center_dist hyp ba bl) 1000))"
    using boxes by (simp add: s_near_formula)
  have nb: "s_near hyp (Some lt) b = max 0 (fsub (1 / 4) (fdiv (center_dist hyp bb bl) 1000))"
    using boxes by (simp add: s_near_formula)
  have nn: "0 \<le> s_near hyp (Some lt) b" by (rule s_near_nonneg)
  have le: "s_near hyp (Some lt) b \<le> s_near hyp (Some lt) a"
    unfolding na nb using nearer by (rule near_bonus_antimono)
  have ta: "total_score hyp m (Some lt) a
              = fadd (fadd (s_txt m (el_name a)) (s_role (norm_opt (el_role a))))
                  (s_near hyp (Some lt) a)"
    using el(1) by (rule total_score_eligible)
  have tb: "total_score hyp m (Some lt) b
              = fadd (fadd (s_txt m (el_name a)) (s_role (norm_opt (el_role a))))
                  (s_near hyp (Some lt) b)"
    using total_score_eligible [OF el(2)] by (simp add: s_txt_norm_cong [OF same(1)] same(2))
  have tot: "total_score hyp m (Some lt) b \<le> total_score hyp m (Some lt) a"
    unfolding ta tb using le by (intro fadd_mono) simp_all
  have ord: "total_score hyp m (Some lt) b < total_score hyp m (Some lt) a \<longrightarrow>
            (\<forall>i j. i < length ?R \<and> j < length ?R \<and> ?R ! i = a \<and> ?R ! j = b \<longrightarrow> i < j)"
    using rank_candidates_order [of hyp m "Some lt" b a _ els] by blast
  have tie: "total_score hyp m (Some lt) a = total_score hyp m (Some lt) b \<longrightarrow>
            filter (\<lambda>e. e = a \<or> e = b) ?R = filter (\<lambda>e. e = a \<or> e = b) els"
    using rank_candidates_tie_order [OF el] by blast
  have far: "250 \<le> center_dist hyp ba bl \<longrightarrow>
            s_near hyp (Some lt) a = 0 \<and> s_near hyp (Some lt) b = 0
            \<and> total_score hyp m (Some lt) a = total_score hyp m (Some lt) b"
  proof
    assume f: "250 \<le> center_dist hyp ba bl"
    with nearer have g: "250 \<le> center_dist hyp bb bl" by simp
    have za: "s_near hyp (Some lt) a = 0" unfolding na using f by (rule near_bonus_far)
    have zb: "s_near hyp (Some lt) b = 0" unfolding nb using g by (rule near_bonus_far)
    have "total_score hyp m (Some lt) a = total_score hyp m (Some lt) b"
      unfolding ta tb by (simp only: za zb)
    with za zb show "s_near hyp (Some lt) a = 0 \<and> s_near hyp (Some lt) b = 0
            \<and> total_score hyp m (Some lt) a = total_score hyp m (Some lt) b"
      by (intro conjI)
  qed
  have clear: "0 \<le> center_dist hyp ba bl \<and> center_dist hyp ba bl \<le> 249
            \<and> center_dist hyp ba bl + 1 / 1000 \<le> center_dist hyp bb bl \<longrightarrow>
            total_score hyp m (Some lt) b < total_score hyp m (Some lt) a
            \<and> (\<forall>i j. i < length ?R \<and> j < length ?R \<and> ?R ! i = a \<and> ?R ! j = b \<longrightarrow> i < j)"
  proof
    assume c: "0 \<le> center_dist hyp ba bl \<and> center_dist hyp ba bl \<le> 249
            \<and> center_dist hyp ba bl + 1 / 1000 \<le> center_dist hyp bb bl"
    let ?c = "fadd (s_txt m (el_name a)) (s_role (norm_opt (el_role a)))"
    have gap: "s_near hyp (Some lt) b + 1 / 2 ^ 50 \<le> s_near hyp (Some lt) a"
      unfolding na nb using c by (intro near_bonus_gap) simp_all
    have t0: "0 \<le> s_txt m (el_name a)" using el(1) by (simp add: eligible_iff)
    have c0: "0 \<le> ?c" and c1: "?c \<le> 3 / 2"
      using t0 s_txt_le_1 by (rule base_score_bounds)+
    have "s_near hyp (Some lt) a \<le> 1 / 4"
      unfolding na using c by (intro near_bonus_le_quarter) simp
    with c1 have lt2: "?c + s_near hyp (Some lt) a < 2" by simp
    have st: "total_score hyp m (Some lt) b < total_score hyp m (Some lt) a"
      unfolding ta tb using c0 nn gap lt2 by (rule fadd_strict)
    then have "\<forall>i j. i < length ?R \<and> j < length ?R \<and> ?R ! i = a \<and> ?R ! j = b \<longrightarrow> i < j"
      using ord by (rule rev_mp)
    with st show "total_score hyp m (Some lt) b < total_score hyp m (Some lt) a
            \<and> (\<forall>i j. i < length ?R \<and> j < length ?R \<and> ?R ! i = a \<and> ?R ! j = b \<longrightarrow> i < j)"
      by (rule conjI)
  qed
  have mem: "a \<in> set ?R" "b \<in> set ?R"
    using inl el by (simp_all add: set_rank_candidates)
  from mem na nb nn le tot ord tie clear far show ?thesis
    by - (intro conjI, assumption+)
qed

theorem proximity_tie_break_witness:
  "rank_candidates hypot_cr [ok_at ''far'' 200, ok_at ''near'' 100] ok_match (Some ok_last)
     = [ok_at ''near'' 100, ok_at ''far'' 200]
   \<and> center_dist hypot_cr (demo_box 100 0) (demo_box 0 0)
       \<le> center_dist hypot_cr (demo_box 200 0) (demo_box 0 0)
   \<and> ok_at ''near'' 100
        \<in> set (rank_candidates hypot_cr [ok_at ''far'' 200, ok_at ''near'' 100] ok_match
                 (Some ok_last))
   \<and> ok_at ''far'' 200
        \<in> set (rank_candidates hypot_cr [ok_at ''far'' 200, ok_at ''near'' 100] ok_match
                 (Some ok_last))
   \<and> 0 \<le> center_dist hypot_cr (demo_box 100 0) (demo_box 0 0)
   \<and> center_dist hypot_cr (demo_box 100 0) (demo_box 0 0) \<le> 249
   \<and> center_dist hypot_cr (demo_box 100 0) (demo_box 0 0) + 1 / 1000
       \<le> center_dist hypot_cr (demo_box 200 0) (demo_box 0 0)
   \<and> s_near hypot_cr (Some ok_last) (ok_at ''far'' 200)
       \<le> s_near hypot_cr (Some ok_last) (ok_at ''near'' 100)
   \<and> total_score hypot_cr ok_match (Some ok_last) (ok_at ''far'' 200)
       < total_score hypot_cr ok_match (Some ok_last) (ok_at ''near'' 100)"
proof -
  let ?els = "[ok_at ''far'' 200, ok_at ''near'' 100]"
  have ev1: "rank_candidates hypot_cr ?els ok_match (Some ok_last)
     = [ok_at ''near'' 100, ok_at ''far'' 200]"
    by (simp add: rank_candidates_def cand_score_ok_at)
  have h: "ok_at ''near'' 100 \<in> set ?els"
      "ok_at ''far'' 200 \<in> set ?els"
      "norm_text (el_name (ok_at ''near'' 100)) = norm_text (el_name (ok_at ''far'' 200))"
      "norm_opt (el_role (ok_at ''near'' 100)) = norm_opt (el_role (ok_at ''far'' 200))"
      "el_bbox (ok_at ''near'' 100) = Some (demo_box 100 0)"
      "el_bbox (ok_at ''far'' 200) = Some (demo_box 200 0)"
      "el_bbox ok_last = Some (demo_box 0 0)"
      "center_dist hypot_cr (demo_box 100 0) (demo_box 0 0)
         \<le> center_dist hypot_cr (demo_box 200 0) (demo_box 0 0)"
    by (simp_all add: ok_at_def demo_el_def ok_last_def demo_center_dist)
  have g: "0 \<le> center_dist hypot_cr (demo_box 100 0) (demo_box 0 0)"
      "center_dist hypot_cr (demo_box 100 0) (demo_box 0 0) \<le> 249"
      "center_dist hypot_cr (demo_box 100 0) (demo_box 0 0) + 1 / 1000
         \<le> center_dist hypot_cr (demo_box 200 0) (demo_box 0 0)"
    by (simp_all add: demo_center_dist)
  note inst = proximity_tie_break [OF h(1) h(2) eligible_ok_at(1) eligible_ok_at(2) h(3-8)]
  from inst
  have "0 \<le> center_dist hypot_cr (demo_box 100 0) (demo_box 0 0)
          \<and> center_dist hypot_cr (demo_box 100 0) (demo_box 0 0) \<le> 249
          \<and> center_dist hypot_cr (demo_box 100 0) (demo_box 0 0) + 1 / 1000
               \<le> center_dist hypot_cr (demo_box 200 0) (demo_box 0 0) \<longrightarrow>
        total_score hypot_cr ok_match (Some ok_last) (ok_at ''far'' 200)
          < total_score hypot_cr ok_match (Some ok_last) (ok_at ''near'' 100)
        \<and> (\<forall>i j. i < length (rank_candidates hypot_cr ?els ok_match (Some ok_last))
                \<and> j < length (rank_candidates hypot_cr ?els ok_match (Some ok_last))
                \<and> rank_candidates hypot_cr ?els ok_match (Some ok_last) ! i = ok_at ''near'' 100
                \<and> rank_candidates hypot_cr ?els ok_match (Some ok_last) ! j = ok_at ''far'' 200
               \<longrightarrow> i < j)"
    by (elim conjE)
  with g have lt: "total_score hypot_cr ok_match (Some ok_last) (ok_at ''far'' 200)
       < total_score hypot_cr ok_match (Some ok_last) (ok_at ''near'' 100)"
    by simp
  from inst
  have m1: "ok_at ''near'' 100
          \<in> set (rank_candidates hypot_cr ?els ok_match (Some ok_last))"
    by (elim conjE)
  from inst
  have m2: "ok_at ''far'' 200
          \<in> set (rank_candidates hypot_cr ?els ok_match (Some ok_last))"
    by (elim conjE)
  from inst
  have le: "s_near hypot_cr (Some ok_last) (ok_at ''far'' 200)
              \<le> s_near hypot_cr (Some ok_last) (ok_at ''near'' 100)"
    by (elim conjE)
  from ev1 h(8) m1 m2 g le lt show ?thesis by (intro conjI)
qed

text \<open>
  A strictly smaller distance below 250 px does not give a greater total either: at 100 px
  and at 100.0000000000001 px the two bonuses differ, and both totals round to
  1.3499999999999999.
\<close>

lemma rounding_absorbs_distance:
  "rank_candidates hypot_cr
       [ok_at ''far'' (7036874417766407 / 70368744177664), ok_at ''near'' 100]
       ok_match (Some ok_last)
     = [ok_at ''far'' (7036874417766407 / 70368744177664), ok_at ''near'' 100]
   \<and> center_dist hypot_cr (demo_box 100 0) (demo_box 0 0)
       < center_dist hypot_cr (demo_box (7036874417766407 / 70368744177664) 0) (demo_box 0 0)
   \<and> s_near hypot_cr (Some ok_last) (ok_at ''far'' (7036874417766407 / 70368744177664))
       < s_near hypot_cr (Some ok_last) (ok_at ''near'' 100)"
proof -
  have d: "center_dist hypot_cr (demo_box (7036874417766407 / 70368744177664) 0) (demo_box 0 0)
             = 7036874417766407 / 70368744177664"
    by (simp add: center_dist_def demo_box_def hypot_cr_zero fadd_def fsub_def fdiv_def dbl_vals)
  have n: "s_near hypot_cr (Some ok_last) (ok_at ''far'' (7036874417766407 / 70368744177664))
             = 337769972052787 / 2251799813685248"
    "s_near hypot_cr (Some ok_last) (ok_at ''near'' 100)
             = 5404319552844595 / 36028797018963968"
    by (simp_all add: s_near_def ok_at_def ok_last_def demo_el_def d demo_center_dist
        fsub_def fdiv_def dbl_vals)
  have c: "cand_score hypot_cr ok_match (Some ok_last)
             (ok_at ''far'' (7036874417766407 / 70368744177664))
           = Some (6079859496950169 / 4503599627370496)"
    using ok_not_blocked
    by (simp add: cand_score_def ok_match_def ok_at_def ok_last_def demo_el_def truthy_def
        or_empty_def not_contains_of_def s_txt_def score_text_def norm_OK s_near_def d
        s_role_vals norm_opt_def norm_roles fadd_def fsub_def fdiv_def dbl_vals)
  show ?thesis
    by (simp add: rank_candidates_def cand_score_ok_at c d demo_center_dist n)
qed

text \<open>
  Claim C1 as stated fails. With a link named \<open>Continue\<close>, a button named \<open>continue\<close> and a
  button named \<open>Continue with Google\<close>, the exact match on \<open>Continue\<close> keeps the link and
  the lower-case button, whose names are equal after normalisation, and the button's role
  bonus puts it first: the element named exactly \<open>Continue\<close> is second.
\<close>

theorem continue_link_not_first_counterexample:
  "demo_el ''l'' (Some ''link'') ''Continue'' None \<in> set continue_pair
   \<and> demo_el ''g'' (Some ''button'') ''Continue with Google'' None \<in> set continue_pair
   \<and> rank_candidates hypot_cr continue_pair continue_match None
        = [demo_el ''b'' (Some ''button'') ''continue'' None,
           demo_el ''l'' (Some ''link'') ''Continue'' None]"
proof -
  have c: "cand_score hypot_cr continue_match None (demo_el ''l'' (Some ''link'') ''Continue'' None)
             = Some (2476979795053773 / 2251799813685248)"
    "cand_score hypot_cr continue_match None (demo_el ''b'' (Some ''button'') ''continue'' None)
             = Some (5404319552844595 / 4503599627370496)"
    "cand_score hypot_cr continue_match None
        (demo_el ''g'' (Some ''button'') ''Continue with Google'' None) = None"
    using norm_NEG_DEFAULT
    by (simp_all add: cand_score_def continue_match_def demo_el_def truthy_def or_empty_def
        not_contains_of_def NEG_DEFAULT_def s_txt_def score_text_def norm_Continue norm_continue
        norm_Google s_near_def s_role_vals norm_opt_def norm_roles fadd_def dbl_vals)
  show ?thesis
    by (simp add: continue_pair_def rank_candidates_def c)
qed

text \<open>
  Claim C1, as amended. In every element list with an element named \<open>Continue\<close> and an
  element named \<open>Continue with Google\<close>, resolving the match \<open>{text: "Continue", exact: true}\<close>
  with no \<open>not_contains\<close> gives a non-empty ranking that contains the element named
  \<open>Continue\<close>. Its entries are the elements whose normalised name is \<open>continue\<close>; the first
  entry has the greatest total score of them, and it is the element named \<open>Continue\<close> when
  no other element has that normalised name. The element named \<open>Continue with Google\<close> is
  in no ranking, whatever the match object and the last target are, and no entry of any
  ranking is blocked by the default blocklist: that list is appended to the \<open>not_contains\<close>
  of every match object.
\<close>

theorem exact_continue_first:
  assumes "e1 \<in> set els" "el_name e1 = ''Continue''"
    and "e2 \<in> set els" "el_name e2 = ''Continue with Google''"
  shows "rank_candidates hyp els continue_match lt \<noteq> []
       \<and> norm_text (el_name (hd (rank_candidates hyp els continue_match lt))) = ''continue''
       \<and> e1 \<in> set (rank_candidates hyp els continue_match lt)
       \<and> set (rank_candidates hyp els continue_match lt)
           = {e \<in> set els. norm_text (el_name e) = ''continue''}
       \<and> (\<forall>e \<in> set (rank_candidates hyp els continue_match lt).
             total_score hyp continue_match lt e
               \<le> total_score hyp continue_match lt (hd (rank_candidates hyp els continue_match lt)))
       \<and> ((\<forall>e \<in> set els. norm_text (el_name e) = ''continue'' \<longrightarrow> e = e1)
            \<longrightarrow> hd (rank_candidates hyp els continue_match lt) = e1)
       \<and> (\<forall>m' lt'. e2 \<notin> set (rank_candidates hyp els m' lt'))
       \<and> (\<forall>m' lt'. \<forall>e \<in> set (rank_candidates hyp els m' lt').
             \<not> is_blocked (el_name e) NEG_DEFAULT)"
proof -
  let ?R = "rank_candidates hyp els continue_match lt"
  have setR: "set ?R = {e \<in> set els. norm_text (el_name e) = ''continue''}"
    by (simp add: set_rank_candidates eligible_continue)
  have in1: "e1 \<in> set ?R" using assms by (simp add: setR norm_Continue)
  then have ne: "?R \<noteq> []" by auto
  then have hdR: "hd ?R \<in> set ?R" by simp
  have hn: "norm_text (el_name (hd ?R)) = ''continue''"
    using hdR by (simp add: setR)
  have gr: "\<forall>e \<in> set ?R. total_score hyp continue_match lt e
               \<le> total_score hyp continue_match lt (hd ?R)"
    by (simp add: rank_candidates_hd_greatest)
  have uniq: "(\<forall>e \<in> set els. norm_text (el_name e) = ''continue'' \<longrightarrow> e = e1) \<longrightarrow> hd ?R = e1"
    using hdR by (auto simp: setR)
  have out2: "\<forall>m' lt'. e2 \<notin> set (rank_candidates hyp els m' lt')"
  proof (intro allI notI)
    fix m' lt'
    assume "e2 \<in> set (rank_candidates hyp els m' lt')"
    then have "\<not> is_blocked (el_name e2) NEG_DEFAULT" by (rule default_blocklist_always)
    then show False by (simp add: assms(4) google_blocked)
  qed
  have nb: "\<forall>m' lt'. \<forall>e \<in> set (rank_candidates hyp els m' lt').
             \<not> is_blocked (el_name e) NEG_DEFAULT"
    using default_blocklist_always by blast
  from ne hn in1 setR gr uniq out2 nb show ?thesis
    by - (intro conjI, assumption+)
qed

theorem exact_continue_first_witness:
  "demo_el ''c'' (Some ''link'') ''Continue'' None \<in> set continue_els
   \<and> demo_el ''g'' (Some ''button'') ''Continue with Google'' None \<in> set continue_els
   \<and> rank_candidates hypot_cr continue_els continue_match None \<noteq> []
   \<and> hd (rank_candidates hypot_cr continue_els continue_match None)
        = demo_el ''c'' (Some ''link'') ''Continue'' None
   \<and> demo_el ''g'' (Some ''button'') ''Continue with Google'' None
        \<notin> set (rank_candidates hypot_cr continue_els continue_match None)
   \<and> demo_el ''g'' (Some ''button'') ''Continue with Google'' None
        \<notin> set (rank_candidates hypot_cr continue_els
                   \<lparr>m_text = Some ''Continue'', m_role = None, m_exact = None,
                      m_not_contains = None\<rparr> None)"
proof -
  let ?c = "demo_el ''c'' (Some ''link'') ''Continue'' None"
  let ?g = "demo_el ''g'' (Some ''button'') ''Continue with Google'' None"
  have h1: "?c \<in> set continue_els" and h3: "?g \<in> set continue_els"
    by (simp_all add: continue_els_def)
  have h2: "el_name ?c = ''Continue''" and h4: "el_name ?g = ''Continue with Google''"
    by (simp_all add: demo_el_def)
  have u: "\<forall>e \<in> set continue_els. norm_text (el_name e) = ''continue'' \<longrightarrow> e = ?c"
    by (simp add: continue_els_def demo_el_def norm_Google norm_Continue)
  note inst = exact_continue_first [OF h1 h2 h3 h4, where hyp = hypot_cr and lt = None]
  from inst have r1: "rank_candidates hypot_cr continue_els continue_match None \<noteq> []"
    by (elim conjE)
  from inst
  have "(\<forall>e \<in> set continue_els. norm_text (el_name e) = ''continue'' \<longrightarrow> e = ?c)
          \<longrightarrow> hd (rank_candidates hypot_cr continue_els continue_match None) = ?c"
    by (elim conjE)
  with u have r2: "hd (rank_candidates hypot_cr continue_els continue_match None) = ?c"
    by (rule rev_mp)
  from inst have "\<forall>m' lt'. ?g \<notin> set (rank_candidates hypot_cr continue_els m' lt')"
    by (elim conjE)
  then have r3: "?g \<notin> set (rank_candidates hypot_cr continue_els continue_match None)"
    and r4: "?g \<notin> set (rank_candidates hypot_cr continue_els
                   \<lparr>m_text = Some ''Continue'', m_role = None, m_exact = None,
                      m_not_contains = None\<rparr> None)"
    by simp_all
  from h1 h3 r1 r2 r3 r4 show ?thesis by (intro conjI)
qed

section \<open>Properties of the step executor\<close>

lemma hover_action: "lower (strip ''hover'') = ''hover''"
  by (simp add: ev)

text \<open>
  Claim C2. The code does not do what the claim says: a step with the unsupported action
  \<open>hover\<close> and no target makes the target resolution raise before the action is looked
  at, and the plan fails.
\<close>

theorem unsupported_action_without_target_fails:
  "run_plan_stepwise hypot_cr demo_ops 0 demo_snap hover_plan []
     = (False, \<lparr>es_page = 0, es_log = []\<rparr>)"
  by (simp add: run_plan_stepwise_def hover_plan_def list_or_nil_def exec_step_def
      hover_step_def hover_action resolve_target_def resolve_chain_def no_target_def truthy_def
      or_empty_def)

lemma unsupported_action_skipped:
  assumes "lower (strip (st_action st)) \<notin> set [[], ''end'', ''type'', ''click'', ''wait_url_contains'']"
    and "resolve_target hyp els last_chosen st = Inr r"
  shows "exec_step hyp ops els user_vars last_chosen st s = Next last_chosen s"
  using assms by (cases r) (simp add: exec_step_def Let_def)

text \<open>
  Claim C10. For every snapshot, page and variable map, running a plan whose step list is
  empty (or absent) calls no primitive, leaves the page as it is and returns \<open>True\<close>;
  when the model's answer cannot be parsed, the planner returns the plan with the empty
  step list, which runs this way.
\<close>

theorem empty_plan_succeeds:
  "(list_or_nil (p_steps pl) = [] \<longrightarrow>
      run_plan_stepwise hyp ops page snap pl user_vars = (True, \<lparr>es_page = page, es_log = []\<rparr>))
   \<and> (loads content = None \<longrightarrow>
        plan_of_content loads content = Inr \<lparr>p_steps = Some []\<rparr>
        \<and> run_plan_stepwise hyp ops page snap \<lparr>p_steps = Some []\<rparr> user_vars
             = (True, \<lparr>es_page = page, es_log = []\<rparr>))"
  by (simp add: run_plan_stepwise_def plan_of_content_def list_or_nil_def)

theorem empty_plan_succeeds_witness:
  "plan_of_content (\<lambda>c. None) ''not json'' = Inr \<lparr>p_steps = Some []\<rparr>
   \<and> run_plan_stepwise hypot_cr demo_ops 0 demo_snap \<lparr>p_steps = Some []\<rparr> []
        = (True, \<lparr>es_page = 0, es_log = []\<rparr>)
   \<and> run_plan_stepwise hypot_cr demo_ops 0 demo_snap \<lparr>p_steps = None\<rparr> []
        = (True, \<lparr>es_page = 0, es_log = []\<rparr>)"
proof -
  have h: "(\<lambda>c::string. None::parsed option) ''not json'' = None" by simp
  have l: "list_or_nil (p_steps \<lparr>p_steps = None\<rparr>) = []" by (simp add: list_or_nil_def)
  note a = empty_plan_succeeds [where pl = "\<lparr>p_steps = None\<rparr>" and hyp = hypot_cr
              and ops = demo_ops and page = 0 and snap = demo_snap and user_vars = "[]"
              and loads = "\<lambda>c. None" and content = "''not json''"]
  from a l have r1: "run_plan_stepwise hypot_cr demo_ops 0 demo_snap \<lparr>p_steps = None\<rparr> []
        = (True, \<lparr>es_page = 0, es_log = []\<rparr>)" by blast
  from a h have r2: "plan_of_content (\<lambda>c. None) ''not json'' = Inr \<lparr>p_steps = Some []\<rparr>"
    and r3: "run_plan_stepwise hypot_cr demo_ops 0 demo_snap \<lparr>p_steps = Some []\<rparr> []
        = (True, \<lparr>es_page = 0, es_log = []\<rparr>)" by blast+
  from r2 r3 r1 show ?thesis by (intro conjI)
qed

lemma norm_names:
  "norm_text ''Continue with Google'' = ''continue with google''"
  "norm_text ''Continue now'' = ''continue now''"
  "norm_text ''Continue later'' = ''continue later''"
  "norm_text ''Continue'' = ''continue''"
  "norm_text ''button'' = ''button''"
  "norm_text ''now'' = ''now''"
  by (simp_all add: ev)

lemma demo_selectors:
  "resolve_target_selector (demo_el u (Some ''button'') ''Continue with Google'' None)
     = Some ''aria://button::Continue with Google''"
  "resolve_target_selector (demo_el u (Some ''button'') ''Continue now'' None)
     = Some ''aria://button::Continue now''"
  "resolve_target_selector (demo_el u (Some ''button'') ''Continue later'' None)
     = Some ''aria://button::Continue later''"
  by (simp_all add: resolve_target_selector_def demo_el_def truthy_def or_empty_def aria_of_def
      lower_def strip_def is_space_def lower_char_def upper_chars_def lower_chars_def)

lemma click_action: "lower (strip ''click'') = ''click''"
  by (simp add: ev)

lemma legacy_resolve:
  "resolve_target hypot_cr continue_buttons None (click_step legacy_continue)
     = Inr (''aria://button::Continue with Google'',
            Some (demo_el ''g'' (Some ''button'') ''Continue with Google'' None))"
proof -
  have f: "find_by_match continue_buttons (Some ''button'') (Some ''Continue'')
            = Some (demo_el ''g'' (Some ''button'') ''Continue with Google'' None)"
    by (simp add: find_by_match_def continue_buttons_def norm_opt_def or_empty_def norm_names
        demo_el_def)
  show ?thesis
    using demo_selectors(1) [of "''g''"]
    by (simp add: resolve_target_def resolve_chain_def click_step_def legacy_continue_def
        no_target_def f)
qed

lemma cand_score_continue:
  "cand_score hypot_cr (upgraded_match legacy_continue) None
       (demo_el ''g'' (Some ''button'') ''Continue with Google'' None) = None"
  "cand_score hypot_cr (upgraded_match legacy_continue) None
       (demo_el ''n'' (Some ''button'') ''Continue now'' None)
     = Some (4728779608739021 / 4503599627370496)"
  "cand_score hypot_cr (upgraded_match legacy_continue) None
       (demo_el ''l'' (Some ''button'') ''Continue later'' None)
     = Some (4728779608739021 / 4503599627370496)"
  using norm_NEG_DEFAULT
  by (simp_all add: cand_score_def upgraded_match_def legacy_continue_def no_target_def
      demo_el_def truthy_def or_empty_def norm_opt_def norm_names not_contains_of_def
      list_or_nil_def NEG_DEFAULT_def s_txt_def score_text_def s_role_vals
      s_near_def fadd_def dbl_vals)

lemma legacy_rank:
  "rank_candidates hypot_cr continue_buttons (upgraded_match legacy_continue) None
     = [demo_el ''n'' (Some ''button'') ''Continue now'' None,
        demo_el ''l'' (Some ''button'') ''Continue later'' None]"
  by (simp add: rank_candidates_def continue_buttons_def cand_score_continue)

text \<open>
  Claim C6 as stated fails. The chosen element \<open>Continue with Google\<close> matches the default
  blocklist, the target has a role and a name, the ranking for it has a second entry, and
  yet the choice stands and the element is clicked: the check reads the target's own
  \<open>not_contains\<close> only.
\<close>

theorem default_blocklist_not_rechecked:
  "resolve_target hypot_cr continue_buttons None (click_step legacy_continue)
     = Inr (''aria://button::Continue with Google'',
            Some (demo_el ''g'' (Some ''button'') ''Continue with Google'' None))
   \<and> is_blocked (el_name (demo_el ''g'' (Some ''button'') ''Continue with Google'' None))
        (list_or_nil (t_not_contains legacy_continue) @ NEG_DEFAULT)
   \<and> t_match legacy_continue = None
   \<and> t_role legacy_continue = Some ''button''
   \<and> t_name legacy_continue = Some ''Continue''
   \<and> rank_candidates hypot_cr continue_buttons (upgraded_match legacy_continue) None
        = [demo_el ''n'' (Some ''button'') ''Continue now'' None,
           demo_el ''l'' (Some ''button'') ''Continue later'' None]
   \<and> run_plan_stepwise hypot_cr observed_ops 0 \<lparr>elements_min = continue_buttons\<rparr>
        \<lparr>p_steps = Some [click_step legacy_continue]\<rparr> []
        = (True, \<lparr>es_page = 11,
                   es_log = [EvVisible ''aria://button::Continue with Google'' 2000,
                             EvClick ''aria://button::Continue with Google'',
                             EvAfter ''click'']\<rparr>)"
proof -
  have b: "is_blocked (el_name (demo_el ''g'' (Some ''button'') ''Continue with Google'' None))
        (list_or_nil (t_not_contains legacy_continue) @ NEG_DEFAULT)"
    using norm_NEG_DEFAULT
    by (simp add: legacy_continue_def no_target_def list_or_nil_def demo_el_def NEG_DEFAULT_def
        norm_names)
  have r: "t_match legacy_continue = None" "t_role legacy_continue = Some ''button''"
    "t_name legacy_continue = Some ''Continue''"
    by (simp_all add: legacy_continue_def no_target_def)
  have c: "click_recheck hypot_cr continue_buttons None legacy_continue
             (Some (demo_el ''g'' (Some ''button'') ''Continue with Google'' None))
             (Some ''aria://button::Continue with Google'')
           = (Some (demo_el ''g'' (Some ''button'') ''Continue with Google'' None),
              Some ''aria://button::Continue with Google'')"
    by (simp add: click_recheck_def legacy_continue_def no_target_def list_or_nil_def)
  have e: "exec_step hypot_cr observed_ops continue_buttons [] None (click_step legacy_continue)
             \<lparr>es_page = 0, es_log = []\<rparr>
           = Next (Some (demo_el ''g'' (Some ''button'') ''Continue with Google'' None))
               \<lparr>es_page = 11,
                es_log = [EvVisible ''aria://button::Continue with Google'' 2000,
                          EvClick ''aria://button::Continue with Google'',
                          EvAfter ''click'']\<rparr>"
    using legacy_resolve
    by (simp add: exec_step_def click_step_def click_action exec_click_def c do_visible_def
        do_click_def observed_ops_def do_after_def chosen_or_def or_empty_def)
  have run: "run_plan_stepwise hypot_cr observed_ops 0 \<lparr>elements_min = continue_buttons\<rparr>
        \<lparr>p_steps = Some [click_step legacy_continue]\<rparr> []
        = (True, \<lparr>es_page = 11,
                   es_log = [EvVisible ''aria://button::Continue with Google'' 2000,
                             EvClick ''aria://button::Continue with Google'',
                             EvAfter ''click'']\<rparr>)"
    by (simp add: run_plan_stepwise_def list_or_nil_def e)
  from legacy_resolve b r legacy_rank run show ?thesis by (intro conjI)
qed

lemma click_recheck_Some:
  "click_recheck hyp els last_chosen t (Some el) selector =
     (if is_blocked (el_name el) (list_or_nil (t_not_contains t))
      then (case recheck_match t of
              None \<Rightarrow> (Some el, selector)
            | Some m2 \<Rightarrow>
                if 2 \<le> length (rank_candidates hyp els m2 last_chosen)
                then (Some (rank_candidates hyp els m2 last_chosen ! 1),
                      resolve_target_selector (rank_candidates hyp els m2 last_chosen ! 1))
                else (Some el, selector))
      else (Some el, selector))"
  by (auto simp: click_recheck_def split: option.splits list.splits)

lemma recheck_match_cases:
  "t_match t = Some m \<Longrightarrow> match_truthy m \<Longrightarrow> recheck_match t = Some m"
  "t_match t = Some m \<Longrightarrow> \<not> match_truthy m \<Longrightarrow> recheck_match t = None"
  "t_match t = None \<Longrightarrow> t_role t \<noteq> None \<or> t_name t \<noteq> None
     \<Longrightarrow> recheck_match t = Some (upgraded_match t)"
  "t_match t = None \<Longrightarrow> t_role t = None \<Longrightarrow> t_name t = None \<Longrightarrow> recheck_match t = None"
  by (auto simp: recheck_match_def)

lemma exec_click_clicks_rechecked:
  assumes "click_recheck hyp els last_chosen t chosen (Some selector) = (chosen', Some sel')"
    and "op_visible ops (es_page s) sel' 2000 = (True, p1)"
    and "op_click ops p1 sel' = (True, p2)"
  shows "exec_click hyp ops els t selector chosen last_chosen s
           = Next (chosen_or chosen' last_chosen)
               (do_after ops ''click'' (ArgTarget t)
                  \<lparr>es_page = p2, es_log = es_log s @ [EvVisible sel' 2000, EvClick sel']\<rparr>)"
  using assms
  by (simp add: exec_click_def do_visible_def do_click_def or_empty_def)

text \<open>
  Claim C6, as amended. In a click step, when the chosen element's name is blocked by the
  target's own top-level \<open>not_contains\<close> (the default blocklist is not consulted), the
  candidates are ranked again: with the target's match object when the target has one
  with at least one key, and with the match object built from role, name, \<open>exact\<close> and
  \<open>not_contains\<close> when the target has no \<open>match\<close> key and has a role or a name. The entry
  at index 1 replaces the choice when that ranking has at least two entries; no entry
  beyond index 1 is considered. In every other case the choice stands: a ranking with
  fewer than two entries, a name that is not blocked, no chosen element, a target with
  none of the three keys, and a target whose \<open>match\<close> key holds an empty object, even if
  it has a role or a name. The visibility check and the click then use the resulting
  selector, and the observer, if there is one, is called after the click.
\<close>

theorem click_recheck_second_ranked:
  "(chosen = Some el \<and> is_blocked (el_name el) (list_or_nil (t_not_contains t))
      \<and> t_match t = Some m \<and> match_truthy m
      \<and> 2 \<le> length (rank_candidates hyp els m last_chosen)
     \<longrightarrow> click_recheck hyp els last_chosen t chosen sel
           = (Some (rank_candidates hyp els m last_chosen ! 1),
              resolve_target_selector (rank_candidates hyp els m last_chosen ! 1)))
   \<and> (chosen = Some el \<and> is_blocked (el_name el) (list_or_nil (t_not_contains t))
      \<and> t_match t = Some m \<and> match_truthy m
      \<and> length (rank_candidates hyp els m last_chosen) < 2
     \<longrightarrow> click_recheck hyp els last_chosen t chosen sel = (chosen, sel))
   \<and> (chosen = Some el \<and> is_blocked (el_name el) (list_or_nil (t_not_contains t))
      \<and> t_match t = None \<and> (t_role t \<noteq> None \<or> t_name t \<noteq> None)
      \<and> 2 \<le> length (rank_candidates hyp els (upgraded_match t) last_chosen)
     \<longrightarrow> click_recheck hyp els last_chosen t chosen sel
           = (Some (rank_candidates hyp els (upgraded_match t) last_chosen ! 1),
              resolve_target_selector
                (rank_candidates hyp els (upgraded_match t) last_chosen ! 1)))
   \<and> (chosen = Some el \<and> is_blocked (el_name el) (list_or_nil (t_not_contains t))
      \<and> t_match t = None \<and> (t_role t \<noteq> None \<or> t_name t \<noteq> None)
      \<and> length (rank_candidates hyp els (upgraded_match t) last_chosen) < 2
     \<longrightarrow> click_recheck hyp els last_chosen t chosen sel = (chosen, sel))
   \<and> (chosen = Some el \<and> t_match t = Some m \<and> \<not> match_truthy m
     \<longrightarrow> click_recheck hyp els last_chosen t chosen sel = (chosen, sel))
   \<and> (chosen = Some el \<and> t_match t = None \<and> t_role t = None \<and> t_name t = None
     \<longrightarrow> click_recheck hyp els last_chosen t chosen sel = (chosen, sel))
   \<and> (chosen = Some el \<and> \<not> is_blocked (el_name el) (list_or_nil (t_not_contains t))
     \<longrightarrow> click_recheck hyp els last_chosen t chosen sel = (chosen, sel))
   \<and> (chosen = None \<longrightarrow> click_recheck hyp els last_chosen t chosen sel = (chosen, sel))
   \<and> (click_recheck hyp els last_chosen t chosen (Some selector) = (chosen', Some sel')
      \<and> op_visible ops (es_page s) sel' 2000 = (True, p1)
      \<and> op_click ops p1 sel' = (True, p2)
     \<longrightarrow> exec_click hyp ops els t selector chosen last_chosen s
           = Next (chosen_or chosen' last_chosen)
               (do_after ops ''click'' (ArgTarget t)
                  \<lparr>es_page = p2, es_log = es_log s @ [EvVisible sel' 2000, EvClick sel']\<rparr>))"
proof (intro conjI impI)
  assume "chosen = Some el \<and> is_blocked (el_name el) (list_or_nil (t_not_contains t))
      \<and> t_match t = Some m \<and> match_truthy m
      \<and> 2 \<le> length (rank_candidates hyp els m last_chosen)"
  then show "click_recheck hyp els last_chosen t chosen sel
           = (Some (rank_candidates hyp els m last_chosen ! 1),
              resolve_target_selector (rank_candidates hyp els m last_chosen ! 1))"
    by (simp add: click_recheck_Some recheck_match_cases)
next
  assume "chosen = Some el \<and> is_blocked (el_name el) (list_or_nil (t_not_contains t))
      \<and> t_match t = Some m \<and> match_truthy m
      \<and> length (rank_candidates hyp els m last_chosen) < 2"
  then show "click_recheck hyp els last_chosen t chosen sel = (chosen, sel)"
    by (simp add: click_recheck_Some recheck_match_cases)
next
  assume "chosen = Some el \<and> is_blocked (el_name el) (list_or_nil (t_not_contains t))
      \<and> t_match t = None \<and> (t_role t \<noteq> None \<or> t_name t \<noteq> None)
      \<and> 2 \<le> length (rank_candidates hyp els (upgraded_match t) last_chosen)"
  then show "click_recheck hyp els last_chosen t chosen sel
           = (Some (rank_candidates hyp els (upgraded_match t) last_chosen ! 1),
              resolve_target_selector
                (rank_candidates hyp els (upgraded_match t) last_chosen ! 1))"
    by (simp add: click_recheck_Some recheck_match_cases(3))
next
  assume "chosen = Some el \<and> is_blocked (el_name el) (list_or_nil (t_not_contains t))
      \<and> t_match t = None \<and> (t_role t \<noteq> None \<or> t_name t \<noteq> None)
      \<and> length (rank_candidates hyp els (upgraded_match t) last_chosen) < 2"
  then show "click_recheck hyp els last_chosen t chosen sel = (chosen, sel)"
    by (simp add: click_recheck_Some recheck_match_cases(3))
next
  assume "chosen = Some el \<and> t_match t = Some m \<and> \<not> match_truthy m"
  then show "click_recheck hyp els last_chosen t chosen sel = (chosen, sel)"
    by (simp add: click_recheck_Some recheck_match_cases)
next
  assume "chosen = Some el \<and> t_match t = None \<and> t_role t = None \<and> t_name t = None"
  then show "click_recheck hyp els last_chosen t chosen sel = (chosen, sel)"
    by (simp add: click_recheck_Some recheck_match_cases)
next
  assume "chosen = Some el \<and> \<not> is_blocked (el_name el) (list_or_nil (t_not_contains t))"
  then show "click_recheck hyp els last_chosen t chosen sel = (chosen, sel)"
    by (simp add: click_recheck_Some)
next
  assume "chosen = None"
  then show "click_recheck hyp els last_chosen t chosen sel = (chosen, sel)"
    by (simp add: click_recheck_def)
next
  assume "click_recheck hyp els last_chosen t chosen (Some selector) = (chosen', Some sel')
      \<and> op_visible ops (es_page s) sel' 2000 = (True, p1)
      \<and> op_click ops p1 sel' = (True, p2)"
  then show "exec_click hyp ops els t selector chosen last_chosen s
           = Next (chosen_or chosen' last_chosen)
               (do_after ops ''click'' (ArgTarget t)
                  \<lparr>es_page = p2, es_log = es_log s @ [EvVisible sel' 2000, EvClick sel']\<rparr>)"
    by (simp add: exec_click_clicks_rechecked)
qed

lemma cand_score_masked:
  "cand_score hypot_cr \<lparr>m_text = Some ''Continue'', m_role = None, m_exact = None,
       m_not_contains = None\<rparr>
       None (demo_el ''g'' (Some ''button'') ''Continue with Google'' None) = None"
  "cand_score hypot_cr \<lparr>m_text = Some ''Continue'', m_role = None, m_exact = None,
       m_not_contains = None\<rparr>
       None (demo_el ''n'' (Some ''button'') ''Continue now'' None)
     = Some (4728779608739021 / 4503599627370496)"
  "cand_score hypot_cr \<lparr>m_text = Some ''Continue'', m_role = None, m_exact = None,
       m_not_contains = None\<rparr>
       None (demo_el ''l'' (Some ''button'') ''Continue later'' None)
     = Some (4728779608739021 / 4503599627370496)"
  using norm_NEG_DEFAULT
  by (simp_all add: cand_score_def demo_el_def truthy_def or_empty_def norm_opt_def norm_names
      not_contains_of_def NEG_DEFAULT_def s_txt_def score_text_def s_role_vals
      s_near_def fadd_def dbl_vals)

lemma masked_rank:
  "rank_candidates hypot_cr continue_buttons
      \<lparr>m_text = Some ''Continue'', m_role = None, m_exact = None, m_not_contains = None\<rparr> None
     = [demo_el ''n'' (Some ''button'') ''Continue now'' None,
        demo_el ''l'' (Some ''button'') ''Continue later'' None]"
  by (simp add: rank_candidates_def continue_buttons_def cand_score_masked)

lemma cand_score_empty_match:
  "cand_score hypot_cr empty_match None
       (demo_el ''g'' (Some ''button'') ''Continue with Google'' None) = None"
  "cand_score hypot_cr empty_match None
       (demo_el ''n'' (Some ''button'') ''Continue now'' None) = Some (1 / 2)"
  "cand_score hypot_cr empty_match None
       (demo_el ''l'' (Some ''button'') ''Continue later'' None) = Some (1 / 2)"
  using norm_NEG_DEFAULT
  by (simp_all add: cand_score_def empty_match_def demo_el_def truthy_def or_empty_def
      norm_opt_def norm_names not_contains_of_def NEG_DEFAULT_def s_txt_def s_role_vals
      s_near_def fadd_def dbl_vals)

lemma empty_match_rank:
  "rank_candidates hypot_cr continue_buttons empty_match None
     = [demo_el ''n'' (Some ''button'') ''Continue now'' None,
        demo_el ''l'' (Some ''button'') ''Continue later'' None]"
  by (simp add: rank_candidates_def continue_buttons_def cand_score_empty_match)

theorem click_recheck_second_ranked_witness:
  "is_blocked (el_name (demo_el ''n'' (Some ''button'') ''Continue now'' None))
       (list_or_nil (t_not_contains masked_continue))
   \<and> click_recheck hypot_cr continue_buttons None masked_continue
        (Some (demo_el ''n'' (Some ''button'') ''Continue now'' None))
        (Some ''aria://button::Continue now'')
      = (Some (demo_el ''l'' (Some ''button'') ''Continue later'' None),
         Some ''aria://button::Continue later'')
   \<and> run_plan_stepwise hypot_cr observed_ops 0 \<lparr>elements_min = continue_buttons\<rparr>
        \<lparr>p_steps = Some [click_step masked_continue]\<rparr> []
        = (True, \<lparr>es_page = 11,
                   es_log = [EvVisible ''aria://button::Continue later'' 2000,
                             EvClick ''aria://button::Continue later'',
                             EvAfter ''click'']\<rparr>)
   \<and> is_blocked (el_name (demo_el ''n'' (Some ''button'') ''Continue now'' None))
       (list_or_nil (t_not_contains empty_match_continue))
   \<and> t_match empty_match_continue = Some empty_match
   \<and> t_role empty_match_continue = Some ''button''
   \<and> 2 \<le> length (rank_candidates hypot_cr continue_buttons empty_match None)
   \<and> click_recheck hypot_cr continue_buttons None empty_match_continue
        (Some (demo_el ''n'' (Some ''button'') ''Continue now'' None))
        (Some ''aria://button::Continue now'')
      = (Some (demo_el ''n'' (Some ''button'') ''Continue now'' None),
         Some ''aria://button::Continue now'')
   \<and> run_plan_stepwise hypot_cr observed_ops 0 \<lparr>elements_min = continue_buttons\<rparr>
        \<lparr>p_steps = Some [click_step empty_match_continue]\<rparr> []
        = (True, \<lparr>es_page = 11,
                   es_log = [EvVisible ''aria://button::Continue now'' 2000,
                             EvClick ''aria://button::Continue now'',
                             EvAfter ''click'']\<rparr>)"
proof -
  let ?n = "demo_el ''n'' (Some ''button'') ''Continue now'' None"
  let ?l = "demo_el ''l'' (Some ''button'') ''Continue later'' None"
  let ?m = "\<lparr>m_text = Some ''Continue'', m_role = None, m_exact = None, m_not_contains = None\<rparr>"
  let ?s0 = "\<lparr>es_page = 0::nat, es_log = []\<rparr>"
  have b: "is_blocked (el_name ?n) (list_or_nil (t_not_contains masked_continue))"
    by (simp add: masked_continue_def no_target_def list_or_nil_def demo_el_def norm_names)
  have r: "t_match masked_continue = Some ?m" "match_truthy ?m"
    by (simp_all add: masked_continue_def no_target_def match_truthy_def)
  have len: "2 \<le> length (rank_candidates hypot_cr continue_buttons ?m None)"
    by (simp add: masked_rank)
  have ops: "op_visible observed_ops (es_page ?s0) sel 2000 = (True, 0)"
    "op_click observed_ops 0 sel = (True, 1)" for sel
    by (simp_all add: observed_ops_def)
  note inst = click_recheck_second_ranked
    [where hyp = hypot_cr and chosen = "Some ?n" and el = ?n and t = masked_continue and m = ?m
       and els = continue_buttons and last_chosen = None
       and selector = "''aria://button::Continue now''" and chosen' = "Some ?l"
       and sel' = "''aria://button::Continue later''" and ops = observed_ops
       and s = ?s0 and ?p1.0 = 0 and ?p2.0 = 1]
  have c: "click_recheck hypot_cr continue_buttons None masked_continue (Some ?n) sel
             = (Some ?l, Some ''aria://button::Continue later'')" for sel
    using inst [where sel = sel] b r len demo_selectors(3) [of "''l''"] by (simp add: masked_rank)
  have res: "resolve_target hypot_cr continue_buttons None (click_step masked_continue)
               = Inr (''aria://button::Continue now'', Some ?n)"
    using demo_selectors(2) [of "''n''"]
    by (simp add: resolve_target_def resolve_chain_def click_step_def masked_continue_def
        no_target_def masked_rank first_ranked_def)
  have ex: "exec_click hypot_cr observed_ops continue_buttons masked_continue
              ''aria://button::Continue now'' (Some ?n) None ?s0
            = Next (Some ?l) \<lparr>es_page = 11,
                   es_log = [EvVisible ''aria://button::Continue later'' 2000,
                             EvClick ''aria://button::Continue later'',
                             EvAfter ''click'']\<rparr>"
    using inst [where sel = "Some ''aria://button::Continue now''"] c ops
    by (simp add: chosen_or_def do_after_def observed_ops_def)
  have run: "run_plan_stepwise hypot_cr observed_ops 0 \<lparr>elements_min = continue_buttons\<rparr>
        \<lparr>p_steps = Some [click_step masked_continue]\<rparr> []
        = (True, \<lparr>es_page = 11,
                   es_log = [EvVisible ''aria://button::Continue later'' 2000,
                             EvClick ''aria://button::Continue later'',
                             EvAfter ''click'']\<rparr>)"
    using res ex
    by (simp add: run_plan_stepwise_def list_or_nil_def exec_step_def click_step_def click_action)
  have b2: "is_blocked (el_name ?n) (list_or_nil (t_not_contains empty_match_continue))"
    by (simp add: empty_match_continue_def no_target_def list_or_nil_def demo_el_def norm_names)
  have r2: "t_match empty_match_continue = Some empty_match" "\<not> match_truthy empty_match"
    "t_role empty_match_continue = Some ''button''"
    by (simp_all add: empty_match_continue_def no_target_def match_truthy_def empty_match_def)
  have len2: "2 \<le> length (rank_candidates hypot_cr continue_buttons empty_match None)"
    by (simp add: empty_match_rank)
  note inst2 = click_recheck_second_ranked
    [where hyp = hypot_cr and chosen = "Some ?n" and el = ?n and t = empty_match_continue
       and m = empty_match and els = continue_buttons and last_chosen = None
       and selector = "''aria://button::Continue now''" and chosen' = "Some ?n"
       and sel' = "''aria://button::Continue now''" and ops = observed_ops
       and s = ?s0 and ?p1.0 = 0 and ?p2.0 = 1]
  have c2: "click_recheck hypot_cr continue_buttons None empty_match_continue (Some ?n) sel
             = (Some ?n, sel)" for sel
    using inst2 [where sel = sel] r2 by simp
  have res2: "resolve_target hypot_cr continue_buttons None (click_step empty_match_continue)
               = Inr (''aria://button::Continue now'', Some ?n)"
    using demo_selectors(2) [of "''n''"]
    by (simp add: resolve_target_def resolve_chain_def click_step_def empty_match_continue_def
        no_target_def empty_match_rank first_ranked_def)
  have ex2: "exec_click hypot_cr observed_ops continue_buttons empty_match_continue
              ''aria://button::Continue now'' (Some ?n) None ?s0
            = Next (Some ?n) \<lparr>es_page = 11,
                   es_log = [EvVisible ''aria://button::Continue now'' 2000,
                             EvClick ''aria://button::Continue now'',
                             EvAfter ''click'']\<rparr>"
    using inst2 [where sel = "Some ''aria://button::Continue now''"] c2 ops
    by (simp add: chosen_or_def do_after_def observed_ops_def)
  have run2: "run_plan_stepwise hypot_cr observed_ops 0 \<lparr>elements_min = continue_buttons\<rparr>
        \<lparr>p_steps = Some [click_step empty_match_continue]\<rparr> []
        = (True, \<lparr>es_page = 11,
                   es_log = [EvVisible ''aria://button::Continue now'' 2000,
                             EvClick ''aria://button::Continue now'',
                             EvAfter ''click'']\<rparr>)"
    using res2 ex2
    by (simp add: run_plan_stepwise_def list_or_nil_def exec_step_def click_step_def click_action)
  from b c run b2 r2(1) r2(3) len2 c2 run2 show ?thesis by (intro conjI)
qed

section \<open>Properties of the recovery loop\<close>

lemma plan_and_run_log:
  "ls_log (snd (plan_and_run env rid prompt email snap s))
     \<in> {ls_log s @ [LPlan prompt],
        ls_log s @ [LPlan prompt, LRun],
        ls_log s @ [LPlan prompt, LRun, LSnapshot (Recover rid)],
        ls_log s @ [LPlan prompt, LRun, LSnapshot (Recover rid), LPlan prompt],
        ls_log s @ [LPlan prompt, LRun, LSnapshot (Recover rid), LPlan prompt, LRun]}"
  by (auto simp: plan_and_run_def Let_def logged_def failed_def
      split: option.splits prod.splits)

lemma plan_and_run_bound:
  "\<exists>evs. ls_log (snd (plan_and_run env rid prompt email snap s)) = ls_log s @ evs
         \<and> count_list evs LRun \<le> 2
         \<and> count_list evs (LSnapshot (Recover rid)) \<le> 1
         \<and> length (filter (\<lambda>e. \<exists>p. e = LPlan p) evs) \<le> 2"
  using plan_and_run_log [of env rid prompt email snap s]
  by (elim insertE emptyE) (rule exI, rule conjI, assumption, simp)+

lemma read_prompt_log:
  assumes "read_prompt env p s = Some (q, s')"
  shows "\<exists>evs. ls_log s' = ls_log s @ evs \<and> quiet rid evs"
proof (cases "p = []")
  case True
  with assms obtain line w where "s' = logged LInput w s"
    by (auto simp: read_prompt_def split: option.splits)
  then have "ls_log s' = ls_log s @ [LInput]" by (simp add: logged_def)
  moreover have "quiet rid [LInput]" by (simp add: quiet_def)
  ultimately show ?thesis by blast
next
  case False
  with assms have "ls_log s' = ls_log s @ []" by (simp add: read_prompt_def)
  moreover have "quiet rid []" by (simp add: quiet_def)
  ultimately show ?thesis by blast
qed

lemma read_email_log:
  assumes "read_email env p e s = Some (q, s')"
  shows "\<exists>evs. ls_log s' = ls_log s @ evs \<and> quiet rid evs"
proof (cases "is_substr ''email'' (lower p) \<and> e = []")
  case True
  with assms obtain line w where "s' = logged LInput w s"
    by (auto simp: read_email_def split: option.splits)
  then have "ls_log s' = ls_log s @ [LInput]" by (simp add: logged_def)
  moreover have "quiet rid [LInput]" by (simp add: quiet_def)
  ultimately show ?thesis by blast
next
  case False
  with assms have "ls_log s' = ls_log s @ []" by (auto simp: read_email_def)
  moreover have "quiet rid []" by (simp add: quiet_def)
  ultimately show ?thesis by blast
qed

lemma quiet_bounded: "quiet rid evs \<Longrightarrow> bounded rid evs"
  by (simp add: quiet_def bounded_def)

lemma quiet_append_bounded:
  "quiet rid pre \<Longrightarrow> bounded rid evs \<Longrightarrow> bounded rid (pre @ evs)"
  by (simp add: quiet_def bounded_def)

lemma quiet_append: "quiet rid a \<Longrightarrow> quiet rid b \<Longrightarrow> quiet rid (a @ b)"
  by (simp add: quiet_def)

lemma agent_round_bound:
  "\<exists>evs. ls_log (snd (agent_round env rid prompt email s)) = ls_log s @ evs \<and> bounded rid evs"
proof (cases "env_snapshot env (Pre rid) (ls_world s)")
  case None
  then have "ls_log (snd (agent_round env rid prompt email s)) = ls_log s @ [LSnapshot (Pre rid)]"
    by (simp add: agent_round_def failed_def)
  moreover have "bounded rid [LSnapshot (Pre rid)]" by (simp add: bounded_def)
  ultimately show ?thesis by blast
next
  case (Some sw)
  obtain snap w1 where sw: "sw = (snap, w1)" by (cases sw)
  define s1 where "s1 = logged (LSnapshot (Pre rid)) w1 s"
  have l1: "ls_log s1 = ls_log s @ [LSnapshot (Pre rid)]" by (simp add: s1_def logged_def)
  have q1: "quiet rid [LSnapshot (Pre rid)]" by (simp add: quiet_def)
  show ?thesis
  proof (cases "read_prompt env prompt s1")
    case None
    then have "ls_log (snd (agent_round env rid prompt email s))
                 = ls_log s @ [LSnapshot (Pre rid), LInput]"
      using Some sw l1 by (simp add: agent_round_def s1_def [symmetric] failed_def)
    moreover have "bounded rid [LSnapshot (Pre rid), LInput]" by (simp add: bounded_def)
    ultimately show ?thesis by blast
  next
    case (Some ps)
    obtain p s2 where ps: "ps = (p, s2)" by (cases ps)
    from read_prompt_log [of env prompt s1 p s2 rid] Some ps
    obtain e2 where e2: "ls_log s2 = ls_log s1 @ e2" "quiet rid e2" by blast
    have r2: "agent_round env rid prompt email s =
               (if lower p \<in> set [''exit'', ''quit''] then (RBreak, s2)
                else (case read_email env p email s2 of
                        None \<Rightarrow> (RRaised, failed LInput s2)
                      | Some (em, s3) \<Rightarrow>
                          (case plan_and_run env rid p em snap s3 of
                             (None, s4) \<Rightarrow> (RRaised, s4)
                           | (Some ok, s4) \<Rightarrow> (RDone ok em, s4))))"
      using \<open>env_snapshot env (Pre rid) (ls_world s) = Some sw\<close> sw Some ps
      by (simp add: agent_round_def s1_def [symmetric])
    have q2: "quiet rid ([LSnapshot (Pre rid)] @ e2)" using q1 e2(2) by (rule quiet_append)
    have l2: "ls_log s2 = ls_log s @ ([LSnapshot (Pre rid)] @ e2)" using e2(1) l1 by simp
    show ?thesis
    proof (cases "lower p \<in> set [''exit'', ''quit'']")
      case True
      then have "ls_log (snd (agent_round env rid prompt email s)) = ls_log s2"
        by (simp add: r2)
      with l2 quiet_bounded [OF q2] show ?thesis by metis
    next
      case False
      show ?thesis
      proof (cases "read_email env p email s2")
        case None
        then have "ls_log (snd (agent_round env rid prompt email s))
                     = ls_log s @ (([LSnapshot (Pre rid)] @ e2) @ [LInput])"
          using False l2 by (simp add: r2 failed_def)
        moreover have qi: "quiet rid [LInput]" by (simp add: quiet_def)
        have "bounded rid (([LSnapshot (Pre rid)] @ e2) @ [LInput])"
          by (rule quiet_bounded [OF quiet_append [OF q2 qi]])
        ultimately show ?thesis by blast
      next
        case (Some es)
        obtain em s3 where es: "es = (em, s3)" by (cases es)
        from read_email_log [of env p email s2 em s3 rid] Some es
        obtain e3 where e3: "ls_log s3 = ls_log s2 @ e3" "quiet rid e3" by blast
        have q3: "quiet rid (([LSnapshot (Pre rid)] @ e2) @ e3)"
          using q2 e3(2) by (rule quiet_append)
        from plan_and_run_bound [of env rid p em snap s3]
        obtain e4 where e4: "ls_log (snd (plan_and_run env rid p em snap s3)) = ls_log s3 @ e4"
          "bounded rid e4" by (auto simp: bounded_def)
        have "snd (agent_round env rid prompt email s) = snd (plan_and_run env rid p em snap s3)"
          using False Some es by (simp add: r2 split: prod.splits option.splits)
        then have "ls_log (snd (agent_round env rid prompt email s))
                     = ls_log s @ ((([LSnapshot (Pre rid)] @ e2) @ e3) @ e4)"
          using e4(1) e3(1) l2 by simp
        moreover have "bounded rid ((([LSnapshot (Pre rid)] @ e2) @ e3) @ e4)"
          using q3 e4(2) by (rule quiet_append_bounded)
        ultimately show ?thesis by blast
      qed
    qed
  qed
qed

lemma plan_and_run_recovers:
  assumes "env_plan env prompt snap email (ls_world s) = Some (pl, w1)"
    and "env_run env rid snap pl [(''EMAIL'', email)] w1 = (False, w2)"
    and "env_snapshot env (Recover rid) w2 = Some (snap2, w3)"
    and "env_plan env prompt snap2 email w3 = Some (pl2, w4)"
    and "env_run env rid snap2 pl2 [(''EMAIL'', email)] w4 = (ok2, w5)"
  shows "plan_and_run env rid prompt email snap s
           = (Some ok2, \<lparr>ls_world = w5, ls_log = ls_log s @ recovery_events rid prompt\<rparr>)"
  using assms by (simp add: plan_and_run_def logged_def recovery_events_def)

lemma plan_and_run_first_ok:
  assumes "env_plan env prompt snap email (ls_world s) = Some (pl, w1)"
    and "env_run env rid snap pl [(''EMAIL'', email)] w1 = (True, w2)"
  shows "plan_and_run env rid prompt email snap s
           = (Some True, \<lparr>ls_world = w2, ls_log = ls_log s @ [LPlan prompt, LRun]\<rparr>)"
  using assms by (simp add: plan_and_run_def logged_def)

lemma read_prompt_inputs:
  assumes "read_prompt env p s = Some (q, s')"
  shows "\<exists>ins. ls_log s' = ls_log s @ ins \<and> list_all (\<lambda>e. e = LInput) ins"
proof (cases "p = []")
  case True
  with assms obtain line w where "s' = logged LInput w s"
    by (auto simp: read_prompt_def split: option.splits)
  then have "ls_log s' = ls_log s @ [LInput] \<and> list_all (\<lambda>e. e = LInput) [LInput]"
    by (simp add: logged_def)
  then show ?thesis by blast
next
  case False
  with assms have "ls_log s' = ls_log s @ [] \<and> list_all (\<lambda>e. e = LInput) []"
    by (simp add: read_prompt_def)
  then show ?thesis by blast
qed

lemma read_email_inputs:
  assumes "read_email env p e s = Some (q, s')"
  shows "\<exists>ins. ls_log s' = ls_log s @ ins \<and> list_all (\<lambda>e. e = LInput) ins"
proof (cases "is_substr ''email'' (lower p) \<and> e = []")
  case True
  with assms obtain line w where "s' = logged LInput w s"
    by (auto simp: read_email_def split: option.splits)
  then have "ls_log s' = ls_log s @ [LInput] \<and> list_all (\<lambda>e. e = LInput) [LInput]"
    by (simp add: logged_def)
  then show ?thesis by blast
next
  case False
  with assms have "ls_log s' = ls_log s @ [] \<and> list_all (\<lambda>e. e = LInput) []"
    by (auto simp: read_email_def)
  then show ?thesis by blast
qed

lemma agent_round_reads:
  assumes "read_prompt env prompt0 (logged (LSnapshot (Pre rid)) w0 s0) = Some (prompt, s2)"
    and "read_email env prompt email0 s2 = Some (email, s)"
  shows "\<exists>ins. ls_log s = ls_log s0 @ LSnapshot (Pre rid) # ins
               \<and> list_all (\<lambda>e. e = LInput) ins"
proof -
  from read_prompt_inputs [OF assms(1)] obtain i1 where
    i1: "ls_log s2 = ls_log (logged (LSnapshot (Pre rid)) w0 s0) @ i1"
      "list_all (\<lambda>e. e = LInput) i1" by blast
  from read_email_inputs [OF assms(2)] obtain i2 where
    i2: "ls_log s = ls_log s2 @ i2" "list_all (\<lambda>e. e = LInput) i2" by blast
  have "ls_log s = ls_log s0 @ LSnapshot (Pre rid) # (i1 @ i2)"
    using i1(1) i2(1) by (simp add: logged_def)
  moreover have "list_all (\<lambda>e. e = LInput) (i1 @ i2)" using i1(2) i2(2) by simp
  ultimately show ?thesis by blast
qed

lemma agent_round_plan_and_run:
  assumes "env_snapshot env (Pre rid) (ls_world s0) = Some (snap, w0)"
    and "read_prompt env prompt0 (logged (LSnapshot (Pre rid)) w0 s0) = Some (prompt, s2)"
    and "lower prompt \<notin> set [''exit'', ''quit'']"
    and "read_email env prompt email0 s2 = Some (email, s)"
  shows "agent_round env rid prompt0 email0 s0
           = (case plan_and_run env rid prompt email snap s of
                (None, s4) \<Rightarrow> (RRaised, s4)
              | (Some ok, s4) \<Rightarrow> (RDone ok email, s4))"
  using assms by (simp add: agent_round_def)

text \<open>
  Claim C9. In a round whose first run of the step executor reports failure, the round takes
  one new snapshot, asks the planner once more with the same instruction, runs the step
  executor once more and returns the result of that second run: after the snapshot and
  the inputs that open the round, its calls are plan, run, snapshot, plan, run, and
  nothing else. A round whose first run succeeds makes the calls plan, run. In every
  round, whatever the collaborators do, the step executor runs at most twice and the
  recovery snapshot is taken at most once.
\<close>

theorem recovery_once:
  "(env_snapshot env (Pre rid) (ls_world s0) = Some (snap, w0)
      \<and> read_prompt env prompt0 (logged (LSnapshot (Pre rid)) w0 s0) = Some (prompt, s2)
      \<and> lower prompt \<notin> set [''exit'', ''quit'']
      \<and> read_email env prompt email0 s2 = Some (email, s)
      \<and> env_plan env prompt snap email (ls_world s) = Some (pl, w1)
      \<and> env_run env rid snap pl [(''EMAIL'', email)] w1 = (False, w2)
      \<and> env_snapshot env (Recover rid) w2 = Some (snap2, w3)
      \<and> env_plan env prompt snap2 email w3 = Some (pl2, w4)
      \<and> env_run env rid snap2 pl2 [(''EMAIL'', email)] w4 = (ok2, w5)
     \<longrightarrow> agent_round env rid prompt0 email0 s0
           = (RDone ok2 email,
              \<lparr>ls_world = w5,
               ls_log = ls_log s @ [LPlan prompt, LRun, LSnapshot (Recover rid),
                                    LPlan prompt, LRun]\<rparr>)
         \<and> (\<exists>ins. ls_log s = ls_log s0 @ LSnapshot (Pre rid) # ins
                   \<and> list_all (\<lambda>e. e = LInput) ins))
   \<and> (env_snapshot env (Pre rid) (ls_world s0) = Some (snap, w0)
      \<and> read_prompt env prompt0 (logged (LSnapshot (Pre rid)) w0 s0) = Some (prompt, s2)
      \<and> lower prompt \<notin> set [''exit'', ''quit'']
      \<and> read_email env prompt email0 s2 = Some (email, s)
      \<and> env_plan env prompt snap email (ls_world s) = Some (pl, w1)
      \<and> env_run env rid snap pl [(''EMAIL'', email)] w1 = (True, w2)
     \<longrightarrow> agent_round env rid prompt0 email0 s0
           = (RDone True email,
              \<lparr>ls_world = w2, ls_log = ls_log s @ [LPlan prompt, LRun]\<rparr>))
   \<and> (env_plan env prompt snap email (ls_world s) = Some (pl, w1)
      \<and> env_run env rid snap pl [(''EMAIL'', email)] w1 = (False, w2)
      \<and> env_snapshot env (Recover rid) w2 = Some (snap2, w3)
      \<and> env_plan env prompt snap2 email w3 = Some (pl2, w4)
      \<and> env_run env rid snap2 pl2 [(''EMAIL'', email)] w4 = (ok2, w5)
     \<longrightarrow> plan_and_run env rid prompt email snap s
           = (Some ok2,
              \<lparr>ls_world = w5,
               ls_log = ls_log s @ [LPlan prompt, LRun, LSnapshot (Recover rid),
                                    LPlan prompt, LRun]\<rparr>))
   \<and> (env_plan env prompt snap email (ls_world s) = Some (pl, w1)
      \<and> env_run env rid snap pl [(''EMAIL'', email)] w1 = (True, w2)
     \<longrightarrow> plan_and_run env rid prompt email snap s
           = (Some True, \<lparr>ls_world = w2, ls_log = ls_log s @ [LPlan prompt, LRun]\<rparr>))
   \<and> (\<exists>evs. ls_log (snd (plan_and_run env rid prompt email snap s)) = ls_log s @ evs
            \<and> count_list evs LRun \<le> 2
            \<and> count_list evs (LSnapshot (Recover rid)) \<le> 1
            \<and> length (filter (\<lambda>e. \<exists>p. e = LPlan p) evs) \<le> 2)
   \<and> (\<exists>evs. ls_log (snd (agent_round env rid prompt0 email0 s0)) = ls_log s0 @ evs
            \<and> count_list evs LRun \<le> 2
            \<and> count_list evs (LSnapshot (Recover rid)) \<le> 1)"
proof (intro conjI impI)
  assume a: "env_snapshot env (Pre rid) (ls_world s0) = Some (snap, w0)
      \<and> read_prompt env prompt0 (logged (LSnapshot (Pre rid)) w0 s0) = Some (prompt, s2)
      \<and> lower prompt \<notin> set [''exit'', ''quit'']
      \<and> read_email env prompt email0 s2 = Some (email, s)
      \<and> env_plan env prompt snap email (ls_world s) = Some (pl, w1)
      \<and> env_run env rid snap pl [(''EMAIL'', email)] w1 = (False, w2)
      \<and> env_snapshot env (Recover rid) w2 = Some (snap2, w3)
      \<and> env_plan env prompt snap2 email w3 = Some (pl2, w4)
      \<and> env_run env rid snap2 pl2 [(''EMAIL'', email)] w4 = (ok2, w5)"
  then have h: "env_snapshot env (Pre rid) (ls_world s0) = Some (snap, w0)"
      "read_prompt env prompt0 (logged (LSnapshot (Pre rid)) w0 s0) = Some (prompt, s2)"
      "lower prompt \<notin> set [''exit'', ''quit'']"
      "read_email env prompt email0 s2 = Some (email, s)"
    and r: "env_plan env prompt snap email (ls_world s) = Some (pl, w1)"
      "env_run env rid snap pl [(''EMAIL'', email)] w1 = (False, w2)"
      "env_snapshot env (Recover rid) w2 = Some (snap2, w3)"
      "env_plan env prompt snap2 email w3 = Some (pl2, w4)"
      "env_run env rid snap2 pl2 [(''EMAIL'', email)] w4 = (ok2, w5)"
    by simp_all
  have "plan_and_run env rid prompt email snap s
           = (Some ok2, \<lparr>ls_world = w5, ls_log = ls_log s @ recovery_events rid prompt\<rparr>)"
    using r by (rule plan_and_run_recovers)
  then show "agent_round env rid prompt0 email0 s0
           = (RDone ok2 email,
              \<lparr>ls_world = w5,
               ls_log = ls_log s @ [LPlan prompt, LRun, LSnapshot (Recover rid),
                                    LPlan prompt, LRun]\<rparr>)"
    by (simp add: agent_round_plan_and_run [OF h] recovery_events_def)
  show "\<exists>ins. ls_log s = ls_log s0 @ LSnapshot (Pre rid) # ins
                   \<and> list_all (\<lambda>e. e = LInput) ins"
    using h(2) h(4) by (rule agent_round_reads)
next
  assume a: "env_snapshot env (Pre rid) (ls_world s0) = Some (snap, w0)
      \<and> read_prompt env prompt0 (logged (LSnapshot (Pre rid)) w0 s0) = Some (prompt, s2)
      \<and> lower prompt \<notin> set [''exit'', ''quit'']
      \<and> read_email env prompt email0 s2 = Some (email, s)
      \<and> env_plan env prompt snap email (ls_world s) = Some (pl, w1)
      \<and> env_run env rid snap pl [(''EMAIL'', email)] w1 = (True, w2)"
  then have h: "env_snapshot env (Pre rid) (ls_world s0) = Some (snap, w0)"
      "read_prompt env prompt0 (logged (LSnapshot (Pre rid)) w0 s0) = Some (prompt, s2)"
      "lower prompt \<notin> set [''exit'', ''quit'']"
      "read_email env prompt email0 s2 = Some (email, s)"
    and r: "env_plan env prompt snap email (ls_world s) = Some (pl, w1)"
      "env_run env rid snap pl [(''EMAIL'', email)] w1 = (True, w2)"
    by simp_all
  have "plan_and_run env rid prompt email snap s
           = (Some True, \<lparr>ls_world = w2, ls_log = ls_log s @ [LPlan prompt, LRun]\<rparr>)"
    using r by (rule plan_and_run_first_ok)
  then show "agent_round env rid prompt0 email0 s0
           = (RDone True email,
              \<lparr>ls_world = w2, ls_log = ls_log s @ [LPlan prompt, LRun]\<rparr>)"
    by (simp add: agent_round_plan_and_run [OF h])
next
  assume "env_plan env prompt snap email (ls_world s) = Some (pl, w1)
      \<and> env_run env rid snap pl [(''EMAIL'', email)] w1 = (False, w2)
      \<and> env_snapshot env (Recover rid) w2 = Some (snap2, w3)
      \<and> env_plan env prompt snap2 email w3 = Some (pl2, w4)
      \<and> env_run env rid snap2 pl2 [(''EMAIL'', email)] w4 = (ok2, w5)"
  then show "plan_and_run env rid prompt email snap s
           = (Some ok2,
              \<lparr>ls_world = w5,
               ls_log = ls_log s @ [LPlan prompt, LRun, LSnapshot (Recover rid),
                                    LPlan prompt, LRun]\<rparr>)"
    using plan_and_run_recovers [of env prompt snap email s pl w1 rid w2 snap2 w3 pl2 w4 ok2 w5]
    by (simp add: recovery_events_def)
next
  assume "env_plan env prompt snap email (ls_world s) = Some (pl, w1)
      \<and> env_run env rid snap pl [(''EMAIL'', email)] w1 = (True, w2)"
  then show "plan_and_run env rid prompt email snap s
           = (Some True, \<lparr>ls_world = w2, ls_log = ls_log s @ [LPlan prompt, LRun]\<rparr>)"
    by (simp add: plan_and_run_first_ok)
next
  show "\<exists>evs. ls_log (snd (plan_and_run env rid prompt email snap s)) = ls_log s @ evs
            \<and> count_list evs LRun \<le> 2
            \<and> count_list evs (LSnapshot (Recover rid)) \<le> 1
            \<and> length (filter (\<lambda>e. \<exists>p. e = LPlan p) evs) \<le> 2"
    by (rule plan_and_run_bound)
next
  show "\<exists>evs. ls_log (snd (agent_round env rid prompt0 email0 s0)) = ls_log s0 @ evs
            \<and> count_list evs LRun \<le> 2
            \<and> count_list evs (LSnapshot (Recover rid)) \<le> 1"
    using agent_round_bound [of env rid prompt0 email0 s0] by (simp add: bounded_def)
qed

lemma click_continue_prompt:
  "lower ''click Continue'' = ''click continue''"
  by (simp add: ev)

theorem recovery_once_witness:
  "env_run demo_env 1 \<lparr>elements_min = []\<rparr> \<lparr>p_steps = Some []\<rparr> [(''EMAIL'', [])] 0 = (False, 1)
   \<and> env_run demo_env 1 \<lparr>elements_min = []\<rparr> \<lparr>p_steps = Some []\<rparr> [(''EMAIL'', [])] 1 = (True, 2)
   \<and> agent_round demo_env 1 ''click Continue'' [] \<lparr>ls_world = 0, ls_log = []\<rparr>
      = (RDone True [],
         \<lparr>ls_world = 2,
          ls_log = [LSnapshot (Pre 1), LPlan ''click Continue'', LRun, LSnapshot (Recover 1),
                    LPlan ''click Continue'', LRun]\<rparr>)
   \<and> plan_and_run demo_env 1 ''click Continue'' [] \<lparr>elements_min = []\<rparr>
        \<lparr>ls_world = 0, ls_log = [LSnapshot (Pre 1)]\<rparr>
      = (Some True,
         \<lparr>ls_world = 2,
          ls_log = [LSnapshot (Pre 1), LPlan ''click Continue'', LRun, LSnapshot (Recover 1),
                    LPlan ''click Continue'', LRun]\<rparr>)"
proof -
  let ?snap = "\<lparr>elements_min = []\<rparr>"
  let ?pl = "\<lparr>p_steps = Some []\<rparr>"
  let ?init = "\<lparr>ls_world = 0::nat, ls_log = []\<rparr>"
  let ?mid = "\<lparr>ls_world = 0::nat, ls_log = [LSnapshot (Pre 1)]\<rparr>"
  have g1: "env_snapshot demo_env (Pre 1) (ls_world ?init) = Some (?snap, 0)"
    by (simp add: demo_env_def)
  have g2: "read_prompt demo_env ''click Continue'' (logged (LSnapshot (Pre 1)) 0 ?init)
               = Some (''click Continue'', ?mid)"
    by (simp add: read_prompt_def logged_def)
  have g3: "lower ''click Continue'' \<notin> set [''exit'', ''quit'']"
    by (simp add: click_continue_prompt)
  have g4: "read_email demo_env ''click Continue'' [] ?mid = Some ([], ?mid)"
    by (simp add: read_email_def click_continue_prompt)
  have h1: "env_plan demo_env ''click Continue'' ?snap [] (ls_world ?mid) = Some (?pl, 0)"
    and h2: "env_run demo_env 1 ?snap ?pl [(''EMAIL'', [])] 0 = (False, 1)"
    and h3: "env_snapshot demo_env (Recover 1) 1 = Some (?snap, 1)"
    and h4: "env_plan demo_env ''click Continue'' ?snap [] 1 = Some (?pl, 1)"
    and h5: "env_run demo_env 1 ?snap ?pl [(''EMAIL'', [])] 1 = (True, 2)"
    by (simp_all add: demo_env_def)
  note inst = recovery_once
    [where env = demo_env and prompt = "''click Continue''" and snap = ?snap and email = "[]"
       and s = ?mid and pl = ?pl and ?w1.0 = 0 and rid = 1
       and ?w2.0 = 1 and ?snap2.0 = ?snap and ?w3.0 = 1 and ?pl2.0 = ?pl and ?w4.0 = 1
       and ?ok2.0 = True and ?w5.0 = 2 and ?s0.0 = ?init and ?w0.0 = 0
       and prompt0 = "''click Continue''" and ?s2.0 = ?mid and email0 = "[]"]
  from inst g1 g2 g3 g4 h1 h2 h3 h4 h5
  have a: "agent_round demo_env 1 ''click Continue'' [] ?init
      = (RDone True [],
         \<lparr>ls_world = 2,
          ls_log = [LSnapshot (Pre 1), LPlan ''click Continue'', LRun, LSnapshot (Recover 1),
                    LPlan ''click Continue'', LRun]\<rparr>)"
    by simp
  from inst h1 h2 h3 h4 h5
  have r: "plan_and_run demo_env 1 ''click Continue'' [] ?snap ?mid
      = (Some True,
         \<lparr>ls_world = 2,
          ls_log = [LSnapshot (Pre 1), LPlan ''click Continue'', LRun, LSnapshot (Recover 1),
                    LPlan ''click Continue'', LRun]\<rparr>)"
    by simp
  from h2 h5 a r show ?thesis by (intro conjI)
qed

section \<open>Properties of the snapshot fuser\<close>

lemmas ev3 = lower_def strip_def is_space_def lower_char_def upper_chars_def lower_chars_def

lemma nameless_full:
  "full_elems_of demo_tsr nameless_frames None =
     [\<lparr>fe_uid = ''u1'', fe_tag = Some ''input'', fe_role = None, fe_name = None,
       fe_attrs = [(''name'', ''q'')], fe_css = Some ''#u1'', fe_xpath = None,
       fe_bbox = Some \<lparr>box_x = 0, box_y = 10, box_w = 50, box_h = 20\<rparr>,
       fe_visible = True, fe_display = Some ''block'', fe_visibility = Some ''visible'',
       fe_frame_path = [], fe_shadow_path = None, fe_ax = None,
       fe_selector_pref = Some (''input[name='' @ dquote @ ''q'' @ dquote @ '']'')\<rparr>]"
  by (simp add: full_elems_of_def dom_nodes_of_def nameless_frames_def demo_node_def
      ax_flat_of_def ax2dom_of_def str_or_none_def full_of_node_def node_role_def truthy_def
      or_empty_def is_visible_like_def visible_like_def preferred_selector_def)

text \<open>
  Claim C4 as stated fails: a visible \<open>input\<close> element with no text, no label and no aligned
  accessibility node gives a record with the empty name in the minimal list.
\<close>

theorem nameless_record_counterexample:
  "snapshot_page demo_tsr nameless_frames None =
     Inr [\<lparr>el_uid = ''u1'', el_role = None, el_tag = Some ''input'', el_name = [],
           el_selector_pref = Some (''input[name='' @ dquote @ ''q'' @ dquote @ '']''),
           el_bbox = Some \<lparr>box_x = 0, box_y = 10, box_w = 50, box_h = 20\<rparr>,
           el_frame_path = [], el_shadow_path = None, el_selector = None\<rparr>]"
  by (simp add: snapshot_page_def fused_minimal_def nameless_full ax_flat_of_def
      is_interactive_def visible_like_def or_empty_def ev3 INTERACTIVE_TAGS_def
      INTERACTIVE_ROLES_def dom_item_def truthy_def ax_role_of_def fused_name_def
      ax_name_of_def key_of_def)

lemma hidden_full_elems:
  "full_elems_of demo_tsr hidden_frames None = [hidden_full ''u1'' 10, hidden_full ''u2'' 40]"
  by (simp add: full_elems_of_def dom_nodes_of_def hidden_frames_def demo_node_def
      ax_flat_of_def ax2dom_of_def str_or_none_def full_of_node_def node_role_def truthy_def
      or_empty_def is_visible_like_def visible_like_def preferred_selector_def hidden_full_def
      ev3)

lemma hidden_not_interactive: "\<not> is_interactive (hidden_full u y)"
  by (simp add: is_interactive_def hidden_full_def visible_like_def)

lemma hidden_cand:
  "degraded_cand (hidden_full u y) = Some (- 1000, y, hidden_full u y)"
  by (simp add: degraded_cand_def hidden_full_def fused_name_def truthy_def or_empty_def ev3
      fmul_def dbl_vals)

lemma hidden_item:
  "degraded_item (hidden_full u y) =
     \<lparr>el_uid = u, el_role = None, el_tag = Some ''button'', el_name = ''Close'',
      el_selector_pref = Some (''[aria-label='' @ dquote @ ''Close'' @ dquote @ '']''),
      el_bbox = Some \<lparr>box_x = 0, box_y = y, box_w = 50, box_h = 20\<rparr>,
      el_frame_path = [], el_shadow_path = None, el_selector = None\<rparr>"
  by (simp add: degraded_item_def hidden_full_def truthy_def or_empty_def ax_role_of_def
      fused_name_def ev3)

text \<open>
  Claim C5. The code does not keep the invariant in its last-resort branch: two hidden
  buttons with the same label give two records with the same
  \<open>(role, name, selector_pref)\<close>. The two loops that share the set \<open>seen\<close> do keep it
  (\<open>fused_minimal_distinct\<close> below).
\<close>

theorem degraded_duplicate_keys:
  "snapshot_page demo_tsr hidden_frames None =
     Inr [degraded_item (hidden_full ''u1'' 10), degraded_item (hidden_full ''u2'' 40)]
   \<and> key_of (degraded_item (hidden_full ''u1'' 10)) = key_of (degraded_item (hidden_full ''u2'' 40))
   \<and> \<not> distinct (map key_of [degraded_item (hidden_full ''u1'' 10),
                              degraded_item (hidden_full ''u2'' 40)])"
proof -
  have m: "fst (fused_minimal demo_tsr hidden_frames None) = []"
    by (simp add: fused_minimal_def hidden_full_elems ax_flat_of_def hidden_not_interactive)
  have d: "degraded [hidden_full ''u1'' 10, hidden_full ''u2'' 40]
             = Inr [degraded_item (hidden_full ''u1'' 10), degraded_item (hidden_full ''u2'' 40)]"
    by (simp add: degraded_def hidden_cand sorted_cands_def)
  have s: "snapshot_page demo_tsr hidden_frames None =
     Inr [degraded_item (hidden_full ''u1'' 10), degraded_item (hidden_full ''u2'' 40)]"
    by (simp add: snapshot_page_def m hidden_full_elems d)
  have k: "key_of (degraded_item (hidden_full ''u1'' 10))
             = key_of (degraded_item (hidden_full ''u2'' 40))"
    by (simp add: key_of_def hidden_item)
  then have nd: "\<not> distinct (map key_of [degraded_item (hidden_full ''u1'' 10),
                              degraded_item (hidden_full ''u2'' 40)])"
    by simp
  from s k nd show ?thesis by (intro conjI)
qed

lemma ok_dom_nodes:
  "dom_nodes_of ok_frames = [demo_node ''u1'' ''div'' (Some ''OK'') [] (Some ''visible'') 10]"
  by (simp add: dom_nodes_of_def ok_frames_def demo_node_def str_or_none_def ev3)

lemma ok_ax_flat:
  "ax_flat_of (Some ok_ax) =
     [\<lparr>an_role = Some ''WebArea'', an_name = Some ''Page'', an_description = None,
       an_frame_path = []\<rparr>,
      \<lparr>an_role = Some ''button'', an_name = Some ''OK'', an_description = None,
       an_frame_path = []\<rparr>,
      \<lparr>an_role = Some ''link'', an_name = Some ''OK'', an_description = None,
       an_frame_path = []\<rparr>]"
  by (simp add: ax_flat_of_def ok_ax_def)

lemma ok_same_frame:
  "same_frame_of [demo_node ''u1'' ''div'' (Some ''OK'') [] (Some ''visible'') 10]
     \<lparr>an_role = r, an_name = n, an_description = d, an_frame_path = []\<rparr> = [0]"
  by (simp add: same_frame_of_def cand_idx_of_def is_visible_like_def visible_like_def
      demo_node_def)

lemma ok_scores:
  "align_score demo_tsr \<lparr>an_role = Some ''WebArea'', an_name = Some ''Page'',
       an_description = None, an_frame_path = []\<rparr>
     (demo_node ''u1'' ''div'' (Some ''OK'') [] (Some ''visible'') 10) = 0"
  "align_score demo_tsr \<lparr>an_role = Some ''button'', an_name = Some ''OK'',
       an_description = None, an_frame_path = []\<rparr>
     (demo_node ''u1'' ''div'' (Some ''OK'') [] (Some ''visible'') 10)
     = 7656119366529843 / 9007199254740992"
  "align_score demo_tsr \<lparr>an_role = Some ''link'', an_name = Some ''OK'',
       an_description = None, an_frame_path = []\<rparr>
     (demo_node ''u1'' ''div'' (Some ''OK'') [] (Some ''visible'') 10)
     = 7656119366529843 / 9007199254740992"
  by (simp_all add: align_score_def ax_label_def str_or_none_def ev3 demo_node_def or_empty_def
      demo_tsr_def truthy_def fadd_def fmul_def fdiv_def dbl_vals)

lemma ok_ax2dom:
  "ax2dom_of demo_tsr (dom_nodes_of ok_frames) (ax_flat_of (Some ok_ax)) = [(1, 0), (2, 0)]"
  by (simp add: ax2dom_of_def ok_dom_nodes ok_ax_flat enumerate_simps align_one_def
      ok_same_frame ok_scores)

lemma ok_full_ax:
  "fe_ax (full_elems_of demo_tsr ok_frames (Some ok_ax) ! 0)
     = Some \<lparr>ai_role = Some ''link'', ai_name = Some ''OK'', ai_description = None\<rparr>"
  by (simp add: full_elems_of_def ok_ax2dom) (simp add: ok_dom_nodes ok_ax_flat ax_info_of_def)

text \<open>
  Claim C3 as stated fails: two accessibility nodes named \<open>OK\<close>, a button and a link, both
  align to the one DOM node named \<open>OK\<close>, and the record of that node carries the data of
  the link, the later of the two.
\<close>

theorem shared_dom_node_counterexample:
  "ax2dom_of demo_tsr (dom_nodes_of ok_frames) (ax_flat_of (Some ok_ax)) = [(1, 0), (2, 0)]
   \<and> \<not> distinct (map snd (ax2dom_of demo_tsr (dom_nodes_of ok_frames) (ax_flat_of (Some ok_ax))))
   \<and> fe_ax (full_elems_of demo_tsr ok_frames (Some ok_ax) ! 0)
        = Some \<lparr>ai_role = Some ''link'', ai_name = Some ''OK'', ai_description = None\<rparr>"
  by (simp add: ok_ax2dom ok_full_ax)

lemma best_of_spec:
  "best_of sc xs (b, bs) = (b', bs') \<Longrightarrow>
     (\<forall>j \<in> set xs. sc j \<le> bs') \<and> bs \<le> bs'
     \<and> ((b' = b \<and> bs' = bs)
        \<or> (\<exists>i pre post. xs = pre @ i # post \<and> b' = Some i \<and> bs' = sc i \<and> bs < sc i
              \<and> (\<forall>j \<in> set pre. sc j < sc i)))"
proof (induction xs arbitrary: b bs)
  case Nil
  then show ?case by simp
next
  case (Cons i rest)
  show ?case
  proof (cases "sc i > bs")
    case True
    with Cons.prems have r: "best_of sc rest (Some i, sc i) = (b', bs')" by simp
    from Cons.IH [OF r] have all: "\<forall>j \<in> set rest. sc j \<le> bs'" and le: "sc i \<le> bs'"
      and alt: "(b' = Some i \<and> bs' = sc i)
        \<or> (\<exists>k pre post. rest = pre @ k # post \<and> b' = Some k \<and> bs' = sc k \<and> sc i < sc k
              \<and> (\<forall>j \<in> set pre. sc j < sc k))"
      by blast+
    from alt have "\<exists>k pre post. i # rest = pre @ k # post \<and> b' = Some k \<and> bs' = sc k
              \<and> bs < sc k \<and> (\<forall>j \<in> set pre. sc j < sc k)"
    proof
      assume "b' = Some i \<and> bs' = sc i"
      then have "i # rest = [] @ i # rest \<and> b' = Some i \<and> bs' = sc i \<and> bs < sc i
              \<and> (\<forall>j \<in> set []. sc j < sc i)"
        using True by simp
      then show ?thesis by blast
    next
      assume "\<exists>k pre post. rest = pre @ k # post \<and> b' = Some k \<and> bs' = sc k \<and> sc i < sc k
              \<and> (\<forall>j \<in> set pre. sc j < sc k)"
      then obtain k pre post where k: "rest = pre @ k # post" "b' = Some k" "bs' = sc k"
        "sc i < sc k" "\<forall>j \<in> set pre. sc j < sc k" by blast
      then have "i # rest = (i # pre) @ k # post \<and> b' = Some k \<and> bs' = sc k \<and> bs < sc k
              \<and> (\<forall>j \<in> set (i # pre). sc j < sc k)"
        using True by simp
      then show ?thesis by blast
    qed
    with all le True show ?thesis by auto
  next
    case False
    with Cons.prems have r: "best_of sc rest (b, bs) = (b', bs')" by simp
    from Cons.IH [OF r] have all: "\<forall>j \<in> set rest. sc j \<le> bs'" and le: "bs \<le> bs'"
      and alt: "(b' = b \<and> bs' = bs)
        \<or> (\<exists>k pre post. rest = pre @ k # post \<and> b' = Some k \<and> bs' = sc k \<and> bs < sc k
              \<and> (\<forall>j \<in> set pre. sc j < sc k))"
      by blast+
    from alt have "(b' = b \<and> bs' = bs)
        \<or> (\<exists>k pre post. i # rest = pre @ k # post \<and> b' = Some k \<and> bs' = sc k \<and> bs < sc k
              \<and> (\<forall>j \<in> set pre. sc j < sc k))"
    proof
      assume "b' = b \<and> bs' = bs"
      then show ?thesis by simp
    next
      assume "\<exists>k pre post. rest = pre @ k # post \<and> b' = Some k \<and> bs' = sc k \<and> bs < sc k
              \<and> (\<forall>j \<in> set pre. sc j < sc k)"
      then obtain k pre post where k: "rest = pre @ k # post" "b' = Some k" "bs' = sc k"
        "bs < sc k" "\<forall>j \<in> set pre. sc j < sc k" by blast
      then have "i # rest = (i # pre) @ k # post \<and> b' = Some k \<and> bs' = sc k \<and> bs < sc k
              \<and> (\<forall>j \<in> set (i # pre). sc j < sc k)"
        using False by simp
      then show ?thesis by blast
    qed
    with all le False show ?thesis by auto
  qed
qed

lemma align_one_Some:
  assumes "align_one tsr dn ax = Some di"
  shows "0.5 \<le> align_score tsr ax (dn ! di)
       \<and> (\<forall>j \<in> set (same_frame_of dn ax). align_score tsr ax (dn ! j) \<le> align_score tsr ax (dn ! di))
       \<and> (\<exists>pre post. same_frame_of dn ax = pre @ di # post
             \<and> (\<forall>j \<in> set pre. align_score tsr ax (dn ! j) < align_score tsr ax (dn ! di)))"
proof -
  let ?sc = "\<lambda>i. align_score tsr ax (dn ! i)"
  obtain b' bs' where r: "best_of ?sc (same_frame_of dn ax) (None, - 1) = (b', bs')"
    by (cases "best_of ?sc (same_frame_of dn ax) (None, - 1)")
  with assms have b: "b' = Some di" and ge: "0.5 \<le> bs'"
    by (auto simp: align_one_def split: option.splits if_splits)
  from best_of_spec [OF r] b
  have all: "\<forall>j \<in> set (same_frame_of dn ax). ?sc j \<le> bs'"
    and ex: "\<exists>i pre post. same_frame_of dn ax = pre @ i # post \<and> b' = Some i \<and> bs' = ?sc i
              \<and> (\<forall>j \<in> set pre. ?sc j < ?sc i)"
    by auto
  from ex b obtain pre post where p: "same_frame_of dn ax = pre @ di # post" "bs' = ?sc di"
    "\<forall>j \<in> set pre. ?sc j < ?sc di" by auto
  with all ge show ?thesis by auto
qed

lemma align_one_None:
  assumes "align_one tsr dn ax = None" and "j \<in> set (same_frame_of dn ax)"
  shows "align_score tsr ax (dn ! j) < 0.5"
proof -
  let ?sc = "\<lambda>i. align_score tsr ax (dn ! i)"
  obtain b' bs' where r: "best_of ?sc (same_frame_of dn ax) (None, - 1) = (b', bs')"
    by (cases "best_of ?sc (same_frame_of dn ax) (None, - 1)")
  from best_of_spec [OF r] assms(2)
  have le: "?sc j \<le> bs'" and alt: "(b' = None \<and> bs' = - 1) \<or> b' \<noteq> None"
    by auto
  from alt have "bs' < 0.5"
  proof
    assume "b' = None \<and> bs' = - 1"
    then show ?thesis by simp
  next
    assume "b' \<noteq> None"
    then obtain i where "b' = Some i" by auto
    with assms(1) r show ?thesis by (simp add: align_one_def split: if_splits)
  qed
  with le show ?thesis by simp
qed

lemma same_frame_member:
  "j \<in> set (same_frame_of dn ax) \<longleftrightarrow>
     j < length dn \<and> is_visible_like (dn ! j) \<and> dn_frame_path (dn ! j) = an_frame_path ax"
  by (auto simp: same_frame_of_def cand_idx_of_def)

lemma set_ax2dom_from:
  "(ai, di) \<in> set (ax2dom_from tsr dn ps)
     \<longleftrightarrow> (\<exists>ax. (ai, ax) \<in> set ps \<and> align_one tsr dn ax = Some di)"
  by (induction tsr dn ps rule: ax2dom_from.induct) (auto split: option.splits)

lemma distinct_ax2dom_from:
  "distinct (map fst ps) \<Longrightarrow> distinct (map fst (ax2dom_from tsr dn ps))"
proof (induction tsr dn ps rule: ax2dom_from.induct)
  case (1 tsr dn)
  then show ?case by simp
next
  case (2 tsr dn ai ax rest)
  have "ai \<notin> fst ` set (ax2dom_from tsr dn rest)"
  proof
    assume "ai \<in> fst ` set (ax2dom_from tsr dn rest)"
    then obtain di where "(ai, di) \<in> set (ax2dom_from tsr dn rest)" by auto
    then obtain ax' where "(ai, ax') \<in> set rest" by (auto simp: set_ax2dom_from)
    then have "ai \<in> fst ` set rest" by force
    with "2.prems" show False by simp
  qed
  with 2 show ?case by (auto split: option.splits)
qed

lemma sorted_ax2dom_from:
  "sorted (map fst ps) \<Longrightarrow> sorted (map fst (ax2dom_from tsr dn ps))"
proof (induction tsr dn ps rule: ax2dom_from.induct)
  case (1 tsr dn)
  then show ?case by simp
next
  case (2 tsr dn ai ax rest)
  have "\<forall>x \<in> fst ` set (ax2dom_from tsr dn rest). ai \<le> x"
  proof
    fix x assume "x \<in> fst ` set (ax2dom_from tsr dn rest)"
    then obtain di where "(x, di) \<in> set (ax2dom_from tsr dn rest)" by auto
    then obtain ax' where "(x, ax') \<in> set rest" by (auto simp: set_ax2dom_from)
    then have "x \<in> fst ` set rest" by force
    with "2.prems" show "ai \<le> x" by auto
  qed
  with 2 show ?case by (auto split: option.splits)
qed

text \<open>
  The threshold is tested on the rounded score: with the similarity 58.8235294117647 the
  product 0.85 * 0.588235294117647 is below 0.5 over the real numbers and is the double
  0.5 in the code, so the node is aligned.
\<close>

lemma rounded_score_reaches_threshold:
  "align_score edge_tsr \<lparr>an_role = None, an_name = Some ''Okay'', an_description = None,
       an_frame_path = []\<rparr>
     (demo_node ''u1'' ''div'' (Some ''OK'') [] (Some ''visible'') 10) = 1 / 2
   \<and> (85 / 100 * (8278675785607529 / 140737488355328 / 100) :: real) < 1 / 2
   \<and> align_one edge_tsr [demo_node ''u1'' ''div'' (Some ''OK'') [] (Some ''visible'') 10]
        \<lparr>an_role = None, an_name = Some ''Okay'', an_description = None, an_frame_path = []\<rparr>
       = Some 0"
proof -
  have a: "align_score edge_tsr \<lparr>an_role = None, an_name = Some ''Okay'', an_description = None,
       an_frame_path = []\<rparr>
     (demo_node ''u1'' ''div'' (Some ''OK'') [] (Some ''visible'') 10) = 1 / 2"
    by (simp add: align_score_def ax_label_def str_or_none_def ev3 demo_node_def or_empty_def
        edge_tsr_def truthy_def fadd_def fmul_def fdiv_def dbl_vals)
  have b: "(85 / 100 * (8278675785607529 / 140737488355328 / 100) :: real) < 1 / 2"
    by simp
  have c: "align_one edge_tsr [demo_node ''u1'' ''div'' (Some ''OK'') [] (Some ''visible'') 10]
        \<lparr>an_role = None, an_name = Some ''Okay'', an_description = None, an_frame_path = []\<rparr>
       = Some 0"
    by (simp add: align_one_def ok_same_frame a)
  from a b c show ?thesis by (intro conjI)
qed

lemma find_append_cases:
  "find P (xs @ ys) = (case find P xs of None \<Rightarrow> find P ys | Some x \<Rightarrow> Some x)"
  by (induction xs) auto

lemma annotate_length: "length (annotate ax_flat A full) = length full"
  by (induction ax_flat A full rule: annotate.induct) auto

lemma annotate_ax:
  "di < length full \<Longrightarrow>
   fe_ax (annotate ax_flat A full ! di)
     = (case find (\<lambda>p. snd p = di) (rev A) of
          None \<Rightarrow> fe_ax (full ! di)
        | Some p \<Rightarrow> Some (ax_info_of (ax_flat ! fst p)))"
proof (induction ax_flat A full rule: annotate.induct)
  case (1 ax_flat full)
  then show ?case by simp
next
  case (2 ax_flat ai d rest full)
  let ?full = "full[d := (full ! d)\<lparr>fe_ax := Some (ax_info_of (ax_flat ! ai))\<rparr>]"
  have len: "di < length ?full" using "2.prems" by simp
  note ih = "2.IH" [OF len]
  show ?case
  proof (cases "find (\<lambda>p. snd p = di) (rev rest)")
    case (Some p)
    then show ?thesis using ih by (simp add: find_append_cases)
  next
    case None
    then have "fe_ax (annotate ax_flat rest ?full ! di) = fe_ax (?full ! di)"
      using ih by simp
    moreover have "fe_ax (?full ! di)
        = (if d = di then Some (ax_info_of (ax_flat ! ai)) else fe_ax (full ! di))"
      using "2.prems" by (cases "d = di") (simp_all add: nth_list_update_eq nth_list_update_neq)
    ultimately show ?thesis using None by (simp add: find_append_cases)
  qed
qed

lemma annotate_keeps:
  "di < length full \<Longrightarrow> fe_uid (annotate ax_flat A full ! di) = fe_uid (full ! di)"
proof (induction ax_flat A full rule: annotate.induct)
  case (1 ax_flat full)
  then show ?case by simp
next
  case (2 ax_flat ai d rest full)
  let ?full = "full[d := (full ! d)\<lparr>fe_ax := Some (ax_info_of (ax_flat ! ai))\<rparr>]"
  have len: "di < length ?full" using "2.prems" by simp
  from "2.IH" [OF len] "2.prems" show ?case
    by (cases "d = di") (simp_all add: nth_list_update_eq nth_list_update_neq)
qed

lemma full_elems_ax:
  assumes "di < length (dom_nodes_of frames)"
  shows "fe_ax (full_elems_of tsr frames ax_root ! di)
     = (case find (\<lambda>p. snd p = di)
               (rev (ax2dom_of tsr (dom_nodes_of frames) (ax_flat_of ax_root))) of
          None \<Rightarrow> None
        | Some p \<Rightarrow> Some (ax_info_of (ax_flat_of ax_root ! fst p)))"
proof -
  have "fe_ax (map full_of_node (dom_nodes_of frames) ! di) = None"
    using assms by (simp add: full_of_node_def)
  then show ?thesis
    using assms by (simp add: full_elems_of_def Let_def annotate_ax split: option.splits)
qed

text \<open>
  Claim C3, as amended. Each accessibility node aligns to at most one DOM node. The node it
  aligns to is visible-like and in the same frame, its combined score, as the code
  computes it in doubles, is at least 0.5 and the greatest among the visible-like nodes
  of that frame, and it is the first in traversal order with that score: every node
  before it scores strictly less. An accessibility node with no alignment has no
  candidate that reaches 0.5. Nothing keeps two accessibility nodes from aligning to the
  same DOM node: the full record of a DOM node carries the data of the last accessibility
  node, in traversal order, that aligns to it, and none when no node aligns to it.
\<close>

theorem alignment_functional:
  "distinct (map fst (ax2dom_of tsr dn ax_flat))
   \<and> (\<forall>(ai, di) \<in> set (ax2dom_of tsr dn ax_flat).
         ai < length ax_flat \<and> di < length dn \<and> is_visible_like (dn ! di)
         \<and> dn_frame_path (dn ! di) = an_frame_path (ax_flat ! ai)
         \<and> 0.5 \<le> align_score tsr (ax_flat ! ai) (dn ! di)
         \<and> (\<forall>j \<in> set (same_frame_of dn (ax_flat ! ai)).
               align_score tsr (ax_flat ! ai) (dn ! j) \<le> align_score tsr (ax_flat ! ai) (dn ! di))
         \<and> (\<exists>pre post. same_frame_of dn (ax_flat ! ai) = pre @ di # post
               \<and> (\<forall>j \<in> set pre. align_score tsr (ax_flat ! ai) (dn ! j)
                                   < align_score tsr (ax_flat ! ai) (dn ! di))))
   \<and> (\<forall>ai < length ax_flat. ai \<notin> fst ` set (ax2dom_of tsr dn ax_flat) \<longrightarrow>
         (\<forall>j \<in> set (same_frame_of dn (ax_flat ! ai)).
            align_score tsr (ax_flat ! ai) (dn ! j) < 0.5))
   \<and> sorted (map fst (ax2dom_of tsr dn ax_flat))
   \<and> (\<forall>di < length (dom_nodes_of frames).
         fe_ax (full_elems_of tsr frames ax_root ! di)
           = (case find (\<lambda>p. snd p = di)
                     (rev (ax2dom_of tsr (dom_nodes_of frames) (ax_flat_of ax_root))) of
                None \<Rightarrow> None
              | Some p \<Rightarrow> Some (ax_info_of (ax_flat_of ax_root ! fst p))))"
proof (intro conjI ballI allI impI)
  show "distinct (map fst (ax2dom_of tsr dn ax_flat))"
    unfolding ax2dom_of_def by (rule distinct_ax2dom_from) (simp add: enumerate_eq_zip)
next
  fix p assume p: "p \<in> set (ax2dom_of tsr dn ax_flat)"
  obtain ai di where pd: "p = (ai, di)" by (cases p)
  with p obtain ax where ax: "(ai, ax) \<in> set (enumerate 0 ax_flat)"
    and al: "align_one tsr dn ax = Some di"
    by (auto simp: ax2dom_of_def set_ax2dom_from)
  from ax have ai: "ai < length ax_flat" and axe: "ax = ax_flat ! ai"
    by (auto simp: in_set_enumerate_eq)
  from align_one_Some [OF al] obtain pre post where
    ge: "0.5 \<le> align_score tsr ax (dn ! di)"
    and all: "\<forall>j \<in> set (same_frame_of dn ax). align_score tsr ax (dn ! j) \<le> align_score tsr ax (dn ! di)"
    and sp: "same_frame_of dn ax = pre @ di # post"
    and pre: "\<forall>j \<in> set pre. align_score tsr ax (dn ! j) < align_score tsr ax (dn ! di)"
    by blast
  from sp have "di \<in> set (same_frame_of dn ax)" by simp
  then have mem: "di < length dn" "is_visible_like (dn ! di)"
    "dn_frame_path (dn ! di) = an_frame_path ax"
    by (simp_all add: same_frame_member)
  have ex: "\<exists>pre post. same_frame_of dn (ax_flat ! ai) = pre @ di # post
               \<and> (\<forall>j \<in> set pre. align_score tsr (ax_flat ! ai) (dn ! j)
                                   < align_score tsr (ax_flat ! ai) (dn ! di))"
    using sp pre axe by blast
  show "case p of (ai, di) \<Rightarrow>
         ai < length ax_flat \<and> di < length dn \<and> is_visible_like (dn ! di)
         \<and> dn_frame_path (dn ! di) = an_frame_path (ax_flat ! ai)
         \<and> 0.5 \<le> align_score tsr (ax_flat ! ai) (dn ! di)
         \<and> (\<forall>j \<in> set (same_frame_of dn (ax_flat ! ai)).
               align_score tsr (ax_flat ! ai) (dn ! j) \<le> align_score tsr (ax_flat ! ai) (dn ! di))
         \<and> (\<exists>pre post. same_frame_of dn (ax_flat ! ai) = pre @ di # post
               \<and> (\<forall>j \<in> set pre. align_score tsr (ax_flat ! ai) (dn ! j)
                                   < align_score tsr (ax_flat ! ai) (dn ! di)))"
    using ai mem ge all ex unfolding pd by (simp add: axe)
next
  fix ai j
  assume ai: "ai < length ax_flat"
    and un: "ai \<notin> fst ` set (ax2dom_of tsr dn ax_flat)"
    and j: "j \<in> set (same_frame_of dn (ax_flat ! ai))"
  have en: "(ai, ax_flat ! ai) \<in> set (enumerate 0 ax_flat)"
    using ai by (simp add: in_set_enumerate_eq)
  have "align_one tsr dn (ax_flat ! ai) = None"
  proof (cases "align_one tsr dn (ax_flat ! ai)")
    case None
    then show ?thesis .
  next
    case (Some di)
    with en have "(ai, di) \<in> set (ax2dom_of tsr dn ax_flat)"
      by (auto simp: ax2dom_of_def set_ax2dom_from)
    then have "ai \<in> fst ` set (ax2dom_of tsr dn ax_flat)" by force
    with un show ?thesis by simp
  qed
  then show "align_score tsr (ax_flat ! ai) (dn ! j) < 0.5"
    using j by (rule align_one_None)
next
  show "sorted (map fst (ax2dom_of tsr dn ax_flat))"
    unfolding ax2dom_of_def by (rule sorted_ax2dom_from) (simp add: enumerate_eq_zip)
next
  fix di assume "di < length (dom_nodes_of frames)"
  then show "fe_ax (full_elems_of tsr frames ax_root ! di)
           = (case find (\<lambda>p. snd p = di)
                     (rev (ax2dom_of tsr (dom_nodes_of frames) (ax_flat_of ax_root))) of
                None \<Rightarrow> None
              | Some p \<Rightarrow> Some (ax_info_of (ax_flat_of ax_root ! fst p)))"
    by (rule full_elems_ax)
qed

theorem alignment_functional_witness:
  "ax2dom_of demo_tsr (dom_nodes_of ok_frames) (ax_flat_of (Some ok_ax)) = [(1, 0), (2, 0)]
   \<and> distinct (map fst (ax2dom_of demo_tsr (dom_nodes_of ok_frames) (ax_flat_of (Some ok_ax))))
   \<and> 0.5 \<le> align_score demo_tsr (ax_flat_of (Some ok_ax) ! 1) (dom_nodes_of ok_frames ! 0)
   \<and> fe_ax (full_elems_of demo_tsr ok_frames (Some ok_ax) ! 0)
        = Some (ax_info_of (ax_flat_of (Some ok_ax) ! 2))
   \<and> ax_info_of (ax_flat_of (Some ok_ax) ! 2)
        = \<lparr>ai_role = Some ''link'', ai_name = Some ''OK'', ai_description = None\<rparr>"
proof -
  let ?A = "ax2dom_of demo_tsr (dom_nodes_of ok_frames) (ax_flat_of (Some ok_ax))"
  have a: "?A = [(1, 0), (2, 0)]"
    by (rule ok_ax2dom)
  then have mem: "(1, 0) \<in> set ?A" by simp
  have len: "0 < length (dom_nodes_of ok_frames)" by (simp add: ok_dom_nodes)
  have i: "ax_info_of (ax_flat_of (Some ok_ax) ! 2)
        = \<lparr>ai_role = Some ''link'', ai_name = Some ''OK'', ai_description = None\<rparr>"
    by (simp add: ok_ax_flat ax_info_of_def)
  note inst = alignment_functional
    [where tsr = demo_tsr and dn = "dom_nodes_of ok_frames" and ax_flat = "ax_flat_of (Some ok_ax)"
       and frames = ok_frames and ax_root = "Some ok_ax"]
  from inst have d: "distinct (map fst ?A)" by (elim conjE)
  from inst have "\<forall>(ai, di) \<in> set ?A.
         ai < length (ax_flat_of (Some ok_ax)) \<and> di < length (dom_nodes_of ok_frames)
         \<and> is_visible_like (dom_nodes_of ok_frames ! di)
         \<and> dn_frame_path (dom_nodes_of ok_frames ! di)
             = an_frame_path (ax_flat_of (Some ok_ax) ! ai)
         \<and> 0.5 \<le> align_score demo_tsr (ax_flat_of (Some ok_ax) ! ai) (dom_nodes_of ok_frames ! di)
         \<and> (\<forall>j \<in> set (same_frame_of (dom_nodes_of ok_frames) (ax_flat_of (Some ok_ax) ! ai)).
               align_score demo_tsr (ax_flat_of (Some ok_ax) ! ai) (dom_nodes_of ok_frames ! j)
                 \<le> align_score demo_tsr (ax_flat_of (Some ok_ax) ! ai) (dom_nodes_of ok_frames ! di))
         \<and> (\<exists>pre post. same_frame_of (dom_nodes_of ok_frames) (ax_flat_of (Some ok_ax) ! ai)
                           = pre @ di # post
               \<and> (\<forall>j \<in> set pre.
                     align_score demo_tsr (ax_flat_of (Some ok_ax) ! ai) (dom_nodes_of ok_frames ! j)
                       < align_score demo_tsr (ax_flat_of (Some ok_ax) ! ai)
                           (dom_nodes_of ok_frames ! di)))"
    by (elim conjE)
  with mem have s: "0.5 \<le> align_score demo_tsr (ax_flat_of (Some ok_ax) ! 1)
                          (dom_nodes_of ok_frames ! 0)"
    by fast
  from inst have "\<forall>di < length (dom_nodes_of ok_frames).
         fe_ax (full_elems_of demo_tsr ok_frames (Some ok_ax) ! di)
           = (case find (\<lambda>p. snd p = di) (rev ?A) of
                None \<Rightarrow> None
              | Some p \<Rightarrow> Some (ax_info_of (ax_flat_of (Some ok_ax) ! fst p)))"
    by (elim conjE)
  with len have "fe_ax (full_elems_of demo_tsr ok_frames (Some ok_ax) ! 0)
           = (case find (\<lambda>p. snd p = 0) (rev ?A) of
                None \<Rightarrow> None
              | Some p \<Rightarrow> Some (ax_info_of (ax_flat_of (Some ok_ax) ! fst p)))"
    by blast
  then have f: "fe_ax (full_elems_of demo_tsr ok_frames (Some ok_ax) ! 0)
        = Some (ax_info_of (ax_flat_of (Some ok_ax) ! 2))"
    by (simp add: a)
  from a d s f i show ?thesis by (intro conjI)
qed

lemma minimal_dom_inv:
  "seen = set (map key_of m) \<Longrightarrow> distinct (map key_of m) \<Longrightarrow>
   minimal_dom es (m, seen) = (m', seen') \<Longrightarrow>
   seen' = set (map key_of m') \<and> distinct (map key_of m')"
proof (induction es arbitrary: m seen)
  case Nil
  then show ?case by auto
next
  case (Cons e es)
  show ?case
  proof (cases "is_interactive e \<and> key_of (dom_item e) \<notin> seen")
    case True
    with Cons.prems(3)
    have r: "minimal_dom es (m @ [dom_item e], insert (key_of (dom_item e)) seen) = (m', seen')"
      by (simp add: Let_def)
    have "insert (key_of (dom_item e)) seen = set (map key_of (m @ [dom_item e]))"
      using Cons.prems(1) by simp
    moreover have "distinct (map key_of (m @ [dom_item e]))"
      using Cons.prems(1,2) True by simp
    ultimately show ?thesis using Cons.IH r by blast
  next
    case False
    with Cons.prems(3) have "minimal_dom es (m, seen) = (m', seen')"
      by (auto simp: Let_def split: if_splits)
    with Cons.IH Cons.prems(1,2) show ?thesis by blast
  qed
qed

lemma ax_fallback_inv:
  "seen = set (map key_of m) \<Longrightarrow> distinct (map key_of m) \<Longrightarrow>
   ax_fallback a ps (m, seen) = (m', seen') \<Longrightarrow>
   seen' = set (map key_of m') \<and> distinct (map key_of m')"
proof (induction ps arbitrary: m seen)
  case Nil
  then show ?case by auto
next
  case (Cons p ps)
  obtain ai ax where p: "p = (ai, ax)" by (cases p)
  let ?r = "lower (or_empty (an_role ax))"
  let ?n = "strip (or_empty (an_name ax))"
  let ?item = "ax_item ai ax ?r ?n"
  show ?case
  proof (cases "ai \<notin> fst ` set a \<and> ?r \<noteq> [] \<and> ?n \<noteq> [] \<and> ?r \<in> set AX_FALLBACK_ROLES
                \<and> key_of ?item \<notin> seen")
    case True
    with Cons.prems(3) p
    have r: "ax_fallback a ps (m @ [?item], insert (key_of ?item) seen) = (m', seen')"
      by (simp add: Let_def)
    have "insert (key_of ?item) seen = set (map key_of (m @ [?item]))"
      using Cons.prems(1) by simp
    moreover have "distinct (map key_of (m @ [?item]))"
      using Cons.prems(1,2) True by simp
    ultimately show ?thesis using Cons.IH r by blast
  next
    case False
    with Cons.prems(3) p have "ax_fallback a ps (m, seen) = (m', seen')"
      by (auto simp: Let_def split: if_splits)
    with Cons.IH Cons.prems(1,2) show ?thesis by blast
  qed
qed

lemma fused_minimal_distinct:
  "distinct (map key_of (fst (fused_minimal tsr frames ax_root)))"
proof -
  obtain m0 s0 where d: "minimal_dom (full_elems_of tsr frames ax_root) ([], {}) = (m0, s0)"
    by (cases "minimal_dom (full_elems_of tsr frames ax_root) ([], {})")
  from minimal_dom_inv [OF _ _ d] have i0: "s0 = set (map key_of m0)" "distinct (map key_of m0)"
    by simp_all
  obtain m1 s1 where a: "ax_fallback
       (ax2dom_of tsr (dom_nodes_of frames) (ax_flat_of ax_root))
       (enumerate 0 (ax_flat_of ax_root)) (m0, s0) = (m1, s1)"
    by (cases "ax_fallback (ax2dom_of tsr (dom_nodes_of frames) (ax_flat_of ax_root))
       (enumerate 0 (ax_flat_of ax_root)) (m0, s0)")
  from ax_fallback_inv [OF i0 a] have "distinct (map key_of m1)" by simp
  then show ?thesis by (simp add: fused_minimal_def d a)
qed

lemma snapshot_distinct_unless_degraded:
  assumes "snapshot_page tsr frames ax_root = Inr ms"
    and "fst (fused_minimal tsr frames ax_root) \<noteq> [] \<or> full_elems_of tsr frames ax_root = []"
  shows "distinct (map key_of ms)"
proof -
  from assms have "ms = fst (fused_minimal tsr frames ax_root)"
    by (auto simp: snapshot_page_def Let_def)
  then show ?thesis by (simp add: fused_minimal_distinct)
qed

lemma minimal_dom_items:
  "e \<in> set (fst (minimal_dom es (m, seen))) \<Longrightarrow>
   e \<in> set m \<or> (\<exists>f \<in> set es. is_interactive f \<and> e = dom_item f)"
proof (induction es arbitrary: m seen)
  case Nil
  then show ?case by simp
next
  case (Cons x es)
  show ?case
  proof (cases "is_interactive x \<and> key_of (dom_item x) \<notin> seen")
    case True
    with Cons.prems
    have "e \<in> set (fst (minimal_dom es (m @ [dom_item x], insert (key_of (dom_item x)) seen)))"
      by (simp add: Let_def)
    from Cons.IH [OF this] True show ?thesis by auto
  next
    case False
    with Cons.prems have "e \<in> set (fst (minimal_dom es (m, seen)))"
      by (auto simp: Let_def split: if_splits)
    from Cons.IH [OF this] show ?thesis by auto
  qed
qed

lemma ax_fallback_items:
  "e \<in> set (fst (ax_fallback a ps (m, seen))) \<Longrightarrow> e \<in> set m \<or> el_name e \<noteq> []"
proof (induction ps arbitrary: m seen)
  case Nil
  then show ?case by simp
next
  case (Cons p ps)
  obtain ai ax where p: "p = (ai, ax)" by (cases p)
  let ?r = "lower (or_empty (an_role ax))"
  let ?n = "strip (or_empty (an_name ax))"
  let ?item = "ax_item ai ax ?r ?n"
  show ?case
  proof (cases "ai \<notin> fst ` set a \<and> ?r \<noteq> [] \<and> ?n \<noteq> [] \<and> ?r \<in> set AX_FALLBACK_ROLES
                \<and> key_of ?item \<notin> seen")
    case True
    with Cons.prems p
    have "e \<in> set (fst (ax_fallback a ps (m @ [?item], insert (key_of ?item) seen)))"
      by (simp add: Let_def)
    from Cons.IH [OF this] have "e \<in> set m \<or> e = ?item \<or> el_name e \<noteq> []" by auto
    moreover have "el_name ?item \<noteq> []" using True by (simp add: ax_item_def)
    ultimately show ?thesis by auto
  next
    case False
    with Cons.prems p have "e \<in> set (fst (ax_fallback a ps (m, seen)))"
      by (auto simp: Let_def split: if_splits)
    from Cons.IH [OF this] show ?thesis .
  qed
qed

lemma degraded_cands_named:
  "c \<in> set (degraded_cands full) \<Longrightarrow> fused_name (snd (snd c)) \<noteq> []"
  by (induction full)
     (auto simp: degraded_cand_def Let_def split: option.splits if_splits)

lemma degraded_names:
  assumes "degraded full = Inr ms" and "e \<in> set ms"
  shows "el_name e \<noteq> []"
proof -
  from assms(1) have ms: "ms = map (\<lambda>c. degraded_item (snd (snd c)))
        (take 10 (sort_key (\<lambda>c. (fst c, fst (snd c))) (degraded_cands full)))"
    by (auto simp: degraded_def sorted_cands_def split: if_splits)
  with assms(2) obtain c where c: "c \<in> set (take 10 (sort_key (\<lambda>c. (fst c, fst (snd c)))
        (degraded_cands full)))" and e: "e = degraded_item (snd (snd c))"
    by auto
  from c have "c \<in> set (sort_key (\<lambda>c. (fst c, fst (snd c))) (degraded_cands full))"
    by (rule in_set_takeD)
  then have "c \<in> set (degraded_cands full)" by simp
  then have "fused_name (snd (snd c)) \<noteq> []" by (rule degraded_cands_named)
  then show ?thesis by (simp add: e degraded_item_def)
qed

text \<open>
  Claim C4, as amended. A record of the minimal list with the empty name is the record of
  an interactive DOM node that has no name of its own and none from an aligned
  accessibility node; the records of the accessibility-only fallback and of the last
  resort all have a name. The candidate resolver never returns a record with the empty
  name.
\<close>

theorem empty_names_only_from_dom:
  assumes "snapshot_page tsr frames ax_root = Inr ms" and "e \<in> set ms" and "el_name e = []"
  shows "(\<exists>f \<in> set (full_elems_of tsr frames ax_root).
            is_interactive f \<and> e = dom_item f \<and> fused_name f = [])
         \<and> e \<notin> set (rank_candidates hyp ms m lt)"
proof -
  let ?full = "full_elems_of tsr frames ax_root"
  let ?min = "fst (fused_minimal tsr frames ax_root)"
  have notdeg: "\<not> (?min = [] \<and> ?full \<noteq> [])"
  proof
    assume "?min = [] \<and> ?full \<noteq> []"
    with assms(1) have "degraded ?full = Inr ms" by (simp add: snapshot_page_def Let_def)
    from this assms(2) have "el_name e \<noteq> []" by (rule degraded_names)
    with assms(3) show False by simp
  qed
  with assms(1) have "ms = ?min" by (auto simp: snapshot_page_def Let_def)
  with assms(2) have "e \<in> set (fst (ax_fallback
       (ax2dom_of tsr (dom_nodes_of frames) (ax_flat_of ax_root))
       (enumerate 0 (ax_flat_of ax_root))
       (minimal_dom ?full ([], {}))))"
    by (simp add: fused_minimal_def Let_def)
  then have "e \<in> set (fst (minimal_dom ?full ([], {})))"
    using ax_fallback_items [of e _ _ "fst (minimal_dom ?full ([], {}))"
                               "snd (minimal_dom ?full ([], {}))"] assms(3)
    by auto
  then obtain f where f: "f \<in> set ?full" "is_interactive f" "e = dom_item f"
    using minimal_dom_items [of e ?full "[]" "{}"] by auto
  from f(3) assms(3) have "fused_name f = []" by (simp add: dom_item_def Let_def)
  with f have a: "\<exists>f \<in> set ?full. is_interactive f \<and> e = dom_item f \<and> fused_name f = []"
    by blast
  have b: "e \<notin> set (rank_candidates hyp ms m lt)"
    using ranked_names [of e hyp ms m lt] assms(3) by blast
  from a b show ?thesis by (rule conjI)
qed

theorem empty_names_only_from_dom_witness:
  "snapshot_page demo_tsr nameless_frames None = Inr [nameless_item]
   \<and> el_name nameless_item = []
   \<and> nameless_item \<notin> set (rank_candidates hypot_cr [nameless_item] ok_match None)"
proof -
  have s: "snapshot_page demo_tsr nameless_frames None = Inr [nameless_item]"
    by (simp add: snapshot_page_def fused_minimal_def nameless_full ax_flat_of_def
      is_interactive_def visible_like_def or_empty_def ev3 INTERACTIVE_TAGS_def
      INTERACTIVE_ROLES_def dom_item_def truthy_def ax_role_of_def fused_name_def
      ax_name_of_def key_of_def nameless_item_def)
  have i: "nameless_item \<in> set [nameless_item]" by simp
  have n: "el_name nameless_item = []" by (simp add: nameless_item_def)
  from empty_names_only_from_dom [OF s i n, where hyp = hypot_cr and m = ok_match and lt = None]
  have "nameless_item \<notin> set (rank_candidates hypot_cr [nameless_item] ok_match None)"
    by (elim conjE)
  with s n show ?thesis by (intro conjI)
qed

end
